theory Spec2Isabelle
  imports Complex_Main "HOL-Library.Multiset"
begin

section \<open>Python values shared by the scheduler and the personalizer\<close>

text \<open>
  The exceptions the modelled functions can raise.  \<open>KeyError\<close> is a subscript
  \<^verbatim>\<open>d['k']\<close> on a dictionary without the key, \<open>IndexError\<close> a list subscript out of
  range, \<open>TypeError\<close> an operation on \<^verbatim>\<open>None\<close> or on a value of the wrong type,
  \<open>ValueError\<close> a string that \<^verbatim>\<open>datetime.fromisoformat\<close> or the \<^verbatim>\<open>StudyMode\<close>
  constructor rejects.
\<close>

datatype error = KeyError | IndexError | TypeError | ValueError

text \<open>
  The dictionaries of the program are \<^verbatim>\<open>Dict[str, Any]\<close>.  A field of such a dictionary
  is modelled by what the code can observe of it: the key is \<open>Absent\<close>, it holds
  \<^verbatim>\<open>None\<close> (\<open>Null\<close>), it holds a non-empty string that is not of the form the code
  expects (\<open>Invalid\<close>), or it holds a well-formed value (\<open>Val\<close>).
\<close>

datatype 'a py_field = Absent | Null | Invalid | Val 'a

text \<open>\<^verbatim>\<open>d.get(k, default)\<close>: the default replaces an absent key only; a stored
  \<^verbatim>\<open>None\<close> is returned as it is.\<close>

fun dict_get :: "'a py_field \<Rightarrow> 'a \<Rightarrow> 'a py_field" where
  "dict_get Absent d = Val d"
| "dict_get f d = f"

text \<open>\<^verbatim>\<open>d.get(k)\<close>: an absent key reads as \<^verbatim>\<open>None\<close>.\<close>

fun dict_get_none :: "'a py_field \<Rightarrow> 'a py_field" where
  "dict_get_none Absent = Null"
| "dict_get_none f = f"

text \<open>\<^verbatim>\<open>d[k]\<close>: an absent key raises.\<close>

fun dict_item :: "'a py_field \<Rightarrow> error + 'a py_field" where
  "dict_item Absent = Inl KeyError"
| "dict_item f = Inr f"

text \<open>Truthiness of a looked-up value (\<^verbatim>\<open>if x:\<close>); \<open>Invalid\<close> is a non-empty
  string, hence true.  The function takes the truthiness of a well-formed value.\<close>

fun truthy :: "('a \<Rightarrow> bool) \<Rightarrow> 'a py_field \<Rightarrow> bool" where
  "truthy t Absent = False"
| "truthy t Null = False"
| "truthy t Invalid = True"
| "truthy t (Val v) = t v"

text \<open>A number taking part in arithmetic or in a comparison with a number: anything
  but a number raises \<^verbatim>\<open>TypeError\<close>.\<close>

fun numeric :: "'a py_field \<Rightarrow> error + 'a" where
  "numeric (Val v) = Inr v"
| "numeric f = Inl TypeError"

text \<open>
  A naive \<^verbatim>\<open>datetime\<close> is the number of microseconds since midnight of a fixed day;
  \<^verbatim>\<open>timedelta(days=d)\<close> is \<open>d\<close> days of microseconds, \<^verbatim>\<open>.hour\<close> the hour of the day
  and \<^verbatim>\<open>(a - b).days\<close> the floor of the difference in days.
\<close>

type_synonym datetime = int

definition usec_per_hour :: int where
  "usec_per_hour = 3600000000"

definition usec_per_day :: int where
  "usec_per_day = 24 * usec_per_hour"

definition timedelta_days :: "int \<Rightarrow> int" where
  "timedelta_days d = d * usec_per_day"

definition hour_of :: "datetime \<Rightarrow> nat" where
  "hour_of t = nat ((t div usec_per_hour) mod 24)"

definition days_between :: "datetime \<Rightarrow> datetime \<Rightarrow> int" where
  "days_between now t = (now - t) div usec_per_day"

text \<open>
  What a well-formed ISO string denotes: a naive \<^verbatim>\<open>datetime\<close>, or, when the string
  ends in a UTC offset, a timezone-aware one.  Of an aware \<^verbatim>\<open>datetime\<close> the model keeps
  the date and time the string shows (which is what \<^verbatim>\<open>.hour\<close> reads); the code cannot
  observe more of it, since comparing it with the naive \<^verbatim>\<open>datetime.now()\<close> or
  subtracting it from that raises \<^verbatim>\<open>TypeError\<close>.
\<close>

datatype timestamp = Naive datetime | Aware datetime

fun wall_clock :: "timestamp \<Rightarrow> datetime" where
  "wall_clock (Naive t) = t"
| "wall_clock (Aware t) = t"

text \<open>\<^verbatim>\<open>datetime.fromisoformat(x)\<close>: \<^verbatim>\<open>None\<close> is not a string, a malformed string is
  rejected.  (The key has been looked up before, so \<open>Absent\<close> reads as \<^verbatim>\<open>None\<close>.)\<close>

fun fromisoformat :: "timestamp py_field \<Rightarrow> error + timestamp" where
  "fromisoformat (Val t) = Inr t"
| "fromisoformat Invalid = Inl ValueError"
| "fromisoformat f = Inl TypeError"

text \<open>\<^verbatim>\<open>t <= current_time\<close> and \<^verbatim>\<open>(now - t).days\<close> for the naive \<^verbatim>\<open>datetime.now()\<close>
  on the right and on the left: an aware \<open>t\<close> raises.\<close>

fun at_or_before :: "timestamp \<Rightarrow> datetime \<Rightarrow> error + bool" where
  "at_or_before (Naive t) current_time = Inr (t \<le> current_time)"
| "at_or_before (Aware t) current_time = Inl TypeError"

fun days_since :: "datetime \<Rightarrow> timestamp \<Rightarrow> error + int" where
  "days_since now (Naive t) = Inr (days_between now t)"
| "days_since now (Aware t) = Inl TypeError"

text \<open>Python list subscript: a negative index counts from the end, an index out of
  range raises.\<close>

definition py_index :: "'a list \<Rightarrow> int \<Rightarrow> error + 'a" where
  "py_index xs i =
     (if 0 \<le> i \<and> i < int (length xs) then Inr (xs ! nat i)
      else if - int (length xs) \<le> i \<and> i < 0 then Inr (xs ! nat (int (length xs) + i))
      else Inl IndexError)"

section \<open>SmartReviewScheduler (analytics\_dashboard.py)\<close>

text \<open>An entry of a performance history, with the keys the scheduler reads.\<close>

record performance =
  p_date :: "timestamp py_field"
  p_accuracy :: "rat py_field"
  p_interval_index :: "int py_field"
  p_duration :: "int py_field"

definition spaced_repetition_intervals :: "int list" where
  "spaced_repetition_intervals = [1, 3, 7, 14, 30, 90]"

text \<open>
  Lines 391--398 of \<^verbatim>\<open>calculate_next_review\<close>: the branch on the latest accuracy.
  An accuracy is a rational number, and the literals \<^verbatim>\<open>0.9\<close>, \<^verbatim>\<open>0.7\<close> and \<^verbatim>\<open>0.8\<close>
  are read as the rationals they denote.
\<close>

definition next_interval_index :: "rat \<Rightarrow> int py_field \<Rightarrow> error + int" where
  "next_interval_index accuracy stored =
     (if accuracy \<ge> 9 / 10 then
        (case numeric stored of Inl e \<Rightarrow> Inl e
         | Inr i \<Rightarrow> Inr (min (int (length spaced_repetition_intervals) - 1) (i + 1)))
      else if accuracy \<ge> 7 / 10 then
        (case numeric stored of Inl e \<Rightarrow> Inl e | Inr i \<Rightarrow> Inr i)
      else
        (case numeric stored of Inl e \<Rightarrow> Inl e | Inr i \<Rightarrow> Inr (max 0 (i - 1))))"

text \<open>
  \<^verbatim>\<open>calculate_next_review(card_id, performance_history)\<close>, with \<open>history\<close> for the
  second parameter.  The clock (\<^verbatim>\<open>datetime.now()\<close>) and the draw of
  \<^verbatim>\<open>np.random.randint(-1, 2)\<close> are inputs; the card id is not used by the code.
\<close>

definition calculate_next_review :: "datetime \<Rightarrow> int \<Rightarrow> performance list \<Rightarrow> error + datetime" where
  "calculate_next_review now randomization history =
     (if history = [] then Inr (now + timedelta_days 1)
      else
        let latest_performance = last history in
        case numeric (dict_get (p_accuracy latest_performance) (1 / 2)) of
          Inl e \<Rightarrow> Inl e
        | Inr accuracy \<Rightarrow>
           (case next_interval_index accuracy
                   (dict_get (p_interval_index latest_performance) 0) of
              Inl e \<Rightarrow> Inl e
            | Inr interval_index \<Rightarrow>
               (case py_index spaced_repetition_intervals interval_index of
                  Inl e \<Rightarrow> Inl e
                | Inr interval_days \<Rightarrow>
                    Inr (now + timedelta_days (max 1 (interval_days + randomization))))))"

text \<open>
  A flashcard, with the keys the scheduler and the personalizer read or write.  The
  text keys hold strings when present; the two timestamps are strings written by
  collaborators, so they may be anything.  The keys below \<open>next_review\<close> are written
  by the personalizer only.
\<close>

record mode_settings =
  time_limit :: int
  show_hints :: bool
  allow_retries :: bool
  feedback_detail :: string

record card =
  c_front :: "string option"
  c_back :: "string option"
  ctype :: "string option"
  tags :: "string list option"
  difficulty :: "string option"
  last_reviewed :: "timestamp py_field"
  next_review :: "timestamp py_field"
  choices :: "string list option"
  correct_answer :: "string option"
  simplified :: "bool option"
  c_mode_settings :: "mode_settings option"
  adjusted_difficulty :: "string option"
  priority :: "int option"

text \<open>The card \<^verbatim>\<open>{}\<close>, without any key.\<close>

definition empty_card :: card where
  "empty_card = \<lparr>c_front = None, c_back = None, ctype = None, tags = None,
     difficulty = None, last_reviewed = Absent, next_review = Absent, choices = None,
     correct_answer = None, simplified = None, c_mode_settings = None,
     adjusted_difficulty = None, priority = None\<rparr>"

text \<open>
  \<^verbatim>\<open>get_cards_due_for_review(user_id, all_cards)\<close>: the loop over \<^verbatim>\<open>all_cards\<close>, with
  \<^verbatim>\<open>due_cards\<close> as accumulator; the clock is an input and the user id is not used.
\<close>

fun due_loop :: "datetime \<Rightarrow> card list \<Rightarrow> card list \<Rightarrow> error + card list" where
  "due_loop current_time [] due_cards = Inr due_cards"
| "due_loop current_time (c # rest) due_cards =
     (let nr = dict_get_none (next_review c) in
      if truthy (\<lambda>_. True) nr then
        (case fromisoformat nr of
           Inl e \<Rightarrow> Inl e
         | Inr next_review_time \<Rightarrow>
            (case at_or_before next_review_time current_time of
               Inl e \<Rightarrow> Inl e
             | Inr due \<Rightarrow>
                 if due then due_loop current_time rest (due_cards @ [c])
                 else due_loop current_time rest due_cards))
      else due_loop current_time rest (due_cards @ [c]))"

definition get_cards_due_for_review :: "datetime \<Rightarrow> card list \<Rightarrow> error + card list" where
  "get_cards_due_for_review current_time all_cards = due_loop current_time all_cards []"

text \<open>The result dictionary of \<^verbatim>\<open>suggest_optimal_study_time\<close>; \<open>reasoning\<close> is
  \<open>None\<close> for the text of the default recommendation and \<open>Some n\<close> for
  \<^verbatim>\<open>'Based on n previous sessions'\<close>.\<close>

record suggestion =
  recommended_time :: string
  recommended_duration :: int
  confidence :: rat
  reasoning :: "nat option"

text \<open>\<^verbatim>\<open>f"{best_hour:02d}:00"\<close> for an hour below 100.\<close>

definition fmt_hour :: "nat \<Rightarrow> string" where
  "fmt_hour h = [''0123456789'' ! (h div 10), ''0123456789'' ! (h mod 10)] @ '':00''"

text \<open>\<^verbatim>\<open>time_performance[hour].append(a)\<close> on a \<^verbatim>\<open>defaultdict(list)\<close>, whose keys keep
  the order of their first insertion.\<close>

fun bucket_append :: "nat \<Rightarrow> 'a \<Rightarrow> (nat \<times> 'a list) list \<Rightarrow> (nat \<times> 'a list) list" where
  "bucket_append h a [] = [(h, [a])]"
| "bucket_append h a ((k, v) # kvs) =
     (if k = h then (k, v @ [a]) # kvs else (k, v) # bucket_append h a kvs)"

text \<open>Lines 436--439: the loop filling \<^verbatim>\<open>time_performance\<close>.\<close>

fun bucket_loop ::
  "performance list \<Rightarrow> (nat \<times> rat py_field list) list \<Rightarrow> error + (nat \<times> rat py_field list) list" where
  "bucket_loop [] time_performance = Inr time_performance"
| "bucket_loop (session # rest) time_performance =
     (case dict_item (p_date session) of
        Inl e \<Rightarrow> Inl e
      | Inr d \<Rightarrow>
         (case fromisoformat d of
            Inl e \<Rightarrow> Inl e
          | Inr t \<Rightarrow>
             (case dict_item (p_accuracy session) of
                Inl e \<Rightarrow> Inl e
              | Inr a \<Rightarrow>
                  bucket_loop rest
                    (bucket_append (hour_of (wall_clock t)) a time_performance))))"

text \<open>The numbers of a list handed to numpy; a \<^verbatim>\<open>None\<close> or a string among them makes
  the reduction raise.\<close>

fun numerics :: "'a py_field list \<Rightarrow> error + 'a list" where
  "numerics [] = Inr []"
| "numerics (f # fs) =
     (case numeric f of
        Inl e \<Rightarrow> Inl e
      | Inr v \<Rightarrow> (case numerics fs of Inl e \<Rightarrow> Inl e | Inr vs \<Rightarrow> Inr (v # vs)))"

text \<open>
  \<^verbatim>\<open>np.mean\<close> and \<^verbatim>\<open>np.median\<close> are library functions that compute in 64-bit floating
  point: their results are rounded and need not be the exact mean and median.  The
  model takes them as parameters, \<open>fmean\<close> and \<open>fmedian\<close>: the functions from the
  numbers of a list to the number that the library returns.  The values are compared
  as numbers.
\<close>

definition np_mean :: "(rat list \<Rightarrow> rat) \<Rightarrow> rat py_field list \<Rightarrow> error + rat" where
  "np_mean fmean fs = (case numerics fs of Inl e \<Rightarrow> Inl e | Inr xs \<Rightarrow> Inr (fmean xs))"

text \<open>Lines 441--449: the search for the best hour.\<close>

fun best_hour_loop ::
  "(rat list \<Rightarrow> rat) \<Rightarrow> (nat \<times> rat py_field list) list \<Rightarrow> nat \<Rightarrow> rat \<Rightarrow> error + nat" where
  "best_hour_loop fmean [] best_hour best_accuracy = Inr best_hour"
| "best_hour_loop fmean ((hour, accuracies) # rest) best_hour best_accuracy =
     (case np_mean fmean accuracies of
        Inl e \<Rightarrow> Inl e
      | Inr avg_accuracy \<Rightarrow>
          if avg_accuracy > best_accuracy
          then best_hour_loop fmean rest hour avg_accuracy
          else best_hour_loop fmean rest best_hour best_accuracy)"

text \<open>Line 452: \<^verbatim>\<open>[session['duration'] for session in historical_performance]\<close>.\<close>

fun durations_of :: "performance list \<Rightarrow> error + int py_field list" where
  "durations_of [] = Inr []"
| "durations_of (session # rest) =
     (case dict_item (p_duration session) of
        Inl e \<Rightarrow> Inl e
      | Inr d \<Rightarrow> (case durations_of rest of Inl e \<Rightarrow> Inl e | Inr ds \<Rightarrow> Inr (d # ds)))"

definition np_median :: "(int list \<Rightarrow> rat) \<Rightarrow> int py_field list \<Rightarrow> error + rat" where
  "np_median fmedian fs =
     (case numerics fs of Inl e \<Rightarrow> Inl e | Inr xs \<Rightarrow> Inr (fmedian xs))"

text \<open>
  The exact mean, and the exact median of a non-empty list (the middle element of the
  sorted list, or the mean of the two middle elements).  The library returns these
  numbers when nothing is rounded on the way, as for a list of one element, for a list
  of zeros, and for small integers.
\<close>

definition exact_mean :: "rat list \<Rightarrow> rat" where
  "exact_mean xs = sum_list xs / of_nat (length xs)"

definition exact_median :: "int list \<Rightarrow> rat" where
  "exact_median xs =
     (let s = sort xs; n = length xs in
      if odd n then of_int (s ! (n div 2))
      else (of_int (s ! (n div 2 - 1)) + of_int (s ! (n div 2))) / 2)"

text \<open>\<^verbatim>\<open>int(x)\<close> of a float: truncation towards zero.\<close>

definition py_int :: "rat \<Rightarrow> int" where
  "py_int q = (if q \<ge> 0 then \<lfloor>q\<rfloor> else \<lceil>q\<rceil>)"

text \<open>\<^verbatim>\<open>confidence\<close> is the number that \<^verbatim>\<open>min(0.9, len(historical_performance) / 10)\<close>
  denotes.\<close>

definition suggest_optimal_study_time ::
  "(rat list \<Rightarrow> rat) \<Rightarrow> (int list \<Rightarrow> rat) \<Rightarrow> performance list \<Rightarrow> error + suggestion" where
  "suggest_optimal_study_time fmean fmedian historical_performance =
     (if historical_performance = [] then
        Inr \<lparr>recommended_time = ''09:00'', recommended_duration = 30,
             confidence = 1 / 2, reasoning = None\<rparr>
      else
        case bucket_loop historical_performance [] of
          Inl e \<Rightarrow> Inl e
        | Inr time_performance \<Rightarrow>
           (case best_hour_loop fmean time_performance 9 0 of
              Inl e \<Rightarrow> Inl e
            | Inr best_hour \<Rightarrow>
               (case durations_of historical_performance of
                  Inl e \<Rightarrow> Inl e
                | Inr durations \<Rightarrow>
                   (case (if durations \<noteq> [] then
                            (case np_median fmedian durations of
                               Inl e \<Rightarrow> Inl e | Inr m \<Rightarrow> Inr (py_int m))
                          else Inr 30) of
                      Inl e \<Rightarrow> Inl e
                    | Inr duration \<Rightarrow>
                        Inr \<lparr>recommended_time = fmt_hour best_hour,
                             recommended_duration = duration,
                             confidence =
                               min (9 / 10) (of_nat (length historical_performance) / 10),
                             reasoning = Some (length historical_performance)\<rparr>))))"

text \<open>The history entry \<^verbatim>\<open>{}\<close>, without any key.\<close>

definition empty_performance :: performance where
  "empty_performance =
     \<lparr>p_date = Absent, p_accuracy = Absent, p_interval_index = Absent, p_duration = Absent\<rparr>"

text \<open>
  Reading a history of complete sessions: an entry is complete when it carries a
  timestamp (naive or with a UTC offset: \<^verbatim>\<open>.hour\<close> reads both), a numeric accuracy and
  a numeric duration.  The three readers below are
  used on complete entries only.
\<close>

fun is_val :: "'a py_field \<Rightarrow> bool" where
  "is_val (Val v) = True"
| "is_val f = False"

definition complete_session :: "performance \<Rightarrow> bool" where
  "complete_session s = (is_val (p_date s) \<and> is_val (p_accuracy s) \<and> is_val (p_duration s))"

definition session_hour :: "performance \<Rightarrow> nat" where
  "session_hour s = (case p_date s of Val t \<Rightarrow> hour_of (wall_clock t) | _ \<Rightarrow> 0)"

definition session_accuracy :: "performance \<Rightarrow> rat" where
  "session_accuracy s = (case p_accuracy s of Val a \<Rightarrow> a | _ \<Rightarrow> 0)"

definition session_duration :: "performance \<Rightarrow> int" where
  "session_duration s = (case p_duration s of Val d \<Rightarrow> d | _ \<Rightarrow> 0)"

text \<open>The mean accuracy, as \<open>fmean\<close> computes it, of the sessions of a history that
  started in hour \<open>h\<close>, and the position of the first session of that hour.\<close>

definition hour_mean :: "(rat list \<Rightarrow> rat) \<Rightarrow> performance list \<Rightarrow> nat \<Rightarrow> rat" where
  "hour_mean fmean hs h =
     fmean (map session_accuracy (filter (\<lambda>s. session_hour s = h) hs))"

definition first_seen :: "nat \<Rightarrow> performance list \<Rightarrow> nat" where
  "first_seen h hs = length (takeWhile (\<lambda>s. session_hour s \<noteq> h) hs)"

text \<open>
  The buckets of a history of complete sessions, and what it means for the key \<open>r\<close> to
  be the first best one of a list of buckets: its value \<open>m r\<close> exceeds the start value,
  the keys before it have a strictly smaller value and no key after it has a larger one.
\<close>

definition bucket_step ::
  "(nat \<times> rat py_field list) list \<Rightarrow> performance \<Rightarrow> (nat \<times> rat py_field list) list" where
  "bucket_step tp s = bucket_append (session_hour s) (p_accuracy s) tp"

definition buckets :: "performance list \<Rightarrow> (nat \<times> rat py_field list) list" where
  "buckets hs = foldl bucket_step [] hs"

definition first_best :: "(nat \<Rightarrow> rat) \<Rightarrow> (nat \<times> 'a) list \<Rightarrow> rat \<Rightarrow> nat \<Rightarrow> bool" where
  "first_best m tp start r =
     (\<exists>pre accs post. tp = pre @ (r, accs) # post \<and> start < m r \<and>
        (\<forall>h \<in> fst ` set pre. m h < m r) \<and> (\<forall>h \<in> fst ` set post. m h \<le> m r))"

section \<open>FlashcardPersonalizer (personalization.py)\<close>

datatype StudyMode = BASIC_EDUCATIONAL | EXAM_PREP | CHALLENGE | FAST_REVIEW | SPACED_REPETITION

datatype CardStyle =
  DEFINITION_BASED | MULTIPLE_CHOICE | CLOZE_DELETION | REVERSE_QUESTIONING | SCENARIO_BASED

text \<open>The value of a member of the enumeration.\<close>

fun mode_name :: "StudyMode \<Rightarrow> string" where
  "mode_name BASIC_EDUCATIONAL = ''basic_educational''"
| "mode_name EXAM_PREP = ''exam_prep''"
| "mode_name CHALLENGE = ''challenge''"
| "mode_name FAST_REVIEW = ''fast_review''"
| "mode_name SPACED_REPETITION = ''spaced_repetition''"

text \<open>
  What \<^verbatim>\<open>session_data.get('mode')\<close> can hold: \<^verbatim>\<open>None\<close> (also when the key is absent),
  a string, or a member of \<^verbatim>\<open>StudyMode\<close>.
\<close>

datatype mode_value = NoMode | ModeName string | ModeMember StudyMode

text \<open>
  \<^verbatim>\<open>StudyMode(x)\<close>: a member is returned as it is, a string is looked up among the
  values of the members, anything else is not a valid \<^verbatim>\<open>StudyMode\<close>.
\<close>

fun StudyMode_of :: "mode_value \<Rightarrow> error + StudyMode" where
  "StudyMode_of (ModeMember m) = Inr m"
| "StudyMode_of (ModeName n) =
     (case filter (\<lambda>m. mode_name m = n)
             [BASIC_EDUCATIONAL, EXAM_PREP, CHALLENGE, FAST_REVIEW, SPACED_REPETITION] of
        [] \<Rightarrow> Inl ValueError
      | m # _ \<Rightarrow> Inr m)"
| "StudyMode_of NoMode = Inl ValueError"

text \<open>
  \<^verbatim>\<open>x in modes\<close> for a list of members.  \<^verbatim>\<open>StudyMode\<close> is a plain \<^verbatim>\<open>Enum\<close>: a member
  is equal to itself only, never to its value, so a string is in no such list.
\<close>

fun mode_in :: "mode_value \<Rightarrow> StudyMode list \<Rightarrow> bool" where
  "mode_in (ModeMember m) modes = (m \<in> set modes)"
| "mode_in v modes = False"

record PersonalizationProfile =
  user_id :: string
  preferred_modes :: "StudyMode list"
  preferred_styles :: "CardStyle list"
  difficulty_preference :: string
  study_time_preference :: int
  performance_history :: "(datetime \<times> mode_value \<times> rat \<times> nat \<times> int) list"
  learning_goals :: "string list"
  weak_areas :: "string list"

text \<open>
  An entry of \<open>performance_history\<close> is the tuple of the values written under
  \<^verbatim>\<open>'date'\<close>, \<^verbatim>\<open>'mode'\<close>, \<^verbatim>\<open>'accuracy'\<close>, \<^verbatim>\<open>'total_cards'\<close> and \<^verbatim>\<open>'study_time'\<close>.

  \<^verbatim>\<open>get_user_profile\<close>: the profile stored for the user, created on first access.  The
  profiles are objects held by \<^verbatim>\<open>self.user_profiles\<close>; the model returns the dictionary
  together with the profile.
\<close>

definition get_user_profile ::
  "(string \<rightharpoonup> PersonalizationProfile) \<Rightarrow> string \<Rightarrow>
     PersonalizationProfile \<times> (string \<rightharpoonup> PersonalizationProfile)" where
  "get_user_profile user_profiles uid =
     (case user_profiles uid of
        Some profile \<Rightarrow> (profile, user_profiles)
      | None \<Rightarrow>
          (let profile = \<lparr>user_id = uid, preferred_modes = [BASIC_EDUCATIONAL],
                 preferred_styles = [DEFINITION_BASED], difficulty_preference = ''medium'',
                 study_time_preference = 30, performance_history = [],
                 learning_goals = [], weak_areas = []\<rparr>
           in (profile, user_profiles(uid \<mapsto> profile))))"

text \<open>A recorded response and the session data handed to \<^verbatim>\<open>update_user_profile\<close>.\<close>

record response =
  r_correct :: "bool py_field"
  r_card :: "card option"

record session_data =
  sd_mode :: mode_value
  sd_responses :: "response list option"
  sd_study_time :: "int option"

text \<open>\<^verbatim>\<open>r.get('correct', False)\<close> as a condition, and
  \<^verbatim>\<open>response.get('card', {}).get('tags', [])\<close>.\<close>

definition is_correct :: "response \<Rightarrow> bool" where
  "is_correct r = truthy (\<lambda>b. b) (dict_get (r_correct r) False)"

definition card_tags :: "response \<Rightarrow> string list" where
  "card_tags r =
     (case r_card r of None \<Rightarrow> [] | Some c \<Rightarrow> (case tags c of None \<Rightarrow> [] | Some ts \<Rightarrow> ts))"

text \<open>
  \<^verbatim>\<open>collections.Counter\<close>: the counts of the elements of a list, the keys in the order
  of their first occurrence.  \<^verbatim>\<open>most_common(n)\<close> lists the \<open>n\<close> largest counts, equal
  counts in the order of the keys.
\<close>

fun counter_add :: "'a \<Rightarrow> ('a \<times> nat) list \<Rightarrow> ('a \<times> nat) list" where
  "counter_add x [] = [(x, 1)]"
| "counter_add x ((k, n) # kvs) =
     (if k = x then (k, Suc n) # kvs else (k, n) # counter_add x kvs)"

definition Counter :: "'a list \<Rightarrow> ('a \<times> nat) list" where
  "Counter xs = foldl (\<lambda>c x. counter_add x c) [] xs"

definition most_common :: "nat \<Rightarrow> ('a \<times> nat) list \<Rightarrow> ('a \<times> nat) list" where
  "most_common n items = take n (sort_key (\<lambda>kv. - int (snd kv)) items)"

text \<open>
  \<^verbatim>\<open>session_data.get('responses', [])\<close>, and lines 294--298: the tags of the cards
  that were not answered correctly, one occurrence for each such response.

  \<^verbatim>\<open>update_user_profile(user_id, session_data)\<close>, on the profile object: the result is
  the exception raised, if any, and the profile as the call leaves it.  The profile
  is updated in place, so what was written before an exception stays written.  The
  literal \<^verbatim>\<open>0.8\<close> is read as the rational it denotes and the division is exact.
\<close>

definition responses_of :: "session_data \<Rightarrow> response list" where
  "responses_of sd = (case sd_responses sd of None \<Rightarrow> [] | Some l \<Rightarrow> l)"

definition weak_topics :: "response list \<Rightarrow> string list" where
  "weak_topics rs = concat (map card_tags (filter (\<lambda>r. \<not> is_correct r) rs))"

definition update_profile ::
  "datetime \<Rightarrow> PersonalizationProfile \<Rightarrow> session_data \<Rightarrow> error option \<times> PersonalizationProfile" where
  "update_profile now profile sd =
     (let rs = responses_of sd;
          total_cards = length rs;
          correct_responses = length (filter is_correct rs);
          accuracy = (if total_cards > 0
                      then of_nat correct_responses / of_nat total_cards else 0);
          performance_entry =
            (now, sd_mode sd, accuracy, total_cards,
             (case sd_study_time sd of None \<Rightarrow> 0 | Some t \<Rightarrow> t));
          profile1 = profile\<lparr>performance_history :=
                       performance_history profile @ [performance_entry]\<rparr>;
          profile2 = profile1\<lparr>weak_areas :=
                       map fst (most_common 5 (Counter (weak_topics rs)))\<rparr>
      in
        if accuracy > 4 / 5 \<and> \<not> mode_in (sd_mode sd) (preferred_modes profile2) then
          (case StudyMode_of (sd_mode sd) of
             Inl e \<Rightarrow> (Some e, profile2)
           | Inr m \<Rightarrow>
               (let profile3 = profile2\<lparr>preferred_modes := preferred_modes profile2 @ [m]\<rparr>
                in (None, profile3\<lparr>performance_history :=
                      drop (length (performance_history profile3) - 30)
                        (performance_history profile3)\<rparr>)))
        else
          (None, profile2\<lparr>performance_history :=
             drop (length (performance_history profile2) - 30)
               (performance_history profile2)\<rparr>))"

text \<open>Lines 278--281: the accuracy that \<open>update_profile\<close> computes for a list of
  responses.\<close>

definition accuracy_of :: "response list \<Rightarrow> rat" where
  "accuracy_of rs =
     (if length rs > 0 then of_nat (length (filter is_correct rs)) / of_nat (length rs) else 0)"

definition update_user_profile ::
  "datetime \<Rightarrow> (string \<rightharpoonup> PersonalizationProfile) \<Rightarrow> string \<Rightarrow> session_data \<Rightarrow>
     error option \<times> (string \<rightharpoonup> PersonalizationProfile)" where
  "update_user_profile now user_profiles uid sd =
     (let (profile, user_profiles1) = get_user_profile user_profiles uid;
          (raised, profile') = update_profile now profile sd
      in (raised, user_profiles1(uid \<mapsto> profile')))"

text \<open>The configuration of a study mode; \<open>flags\<close> lists the further keys that are
  set to \<^verbatim>\<open>True\<close>.\<close>

record mode_configuration =
  time_per_card :: int
  cfg_show_hints :: bool
  cfg_allow_retries :: bool
  cfg_feedback_detail :: string
  card_styles :: "CardStyle list"
  ui_theme :: string
  flags :: "string list"
  algorithm :: "string option"

fun mode_configurations :: "StudyMode \<Rightarrow> mode_configuration" where
  "mode_configurations BASIC_EDUCATIONAL =
     \<lparr>time_per_card = 30, cfg_show_hints = True, cfg_allow_retries = True,
      cfg_feedback_detail = ''comprehensive'',
      card_styles = [DEFINITION_BASED, CLOZE_DELETION], ui_theme = ''clean_minimal'',
      flags = [], algorithm = None\<rparr>"
| "mode_configurations EXAM_PREP =
     \<lparr>time_per_card = 20, cfg_show_hints = False, cfg_allow_retries = False,
      cfg_feedback_detail = ''immediate'',
      card_styles = [MULTIPLE_CHOICE, SCENARIO_BASED], ui_theme = ''exam_focused'',
      flags = [''include_timer'', ''track_accuracy''], algorithm = None\<rparr>"
| "mode_configurations CHALLENGE =
     \<lparr>time_per_card = 15, cfg_show_hints = False, cfg_allow_retries = False,
      cfg_feedback_detail = ''minimal'',
      card_styles = [REVERSE_QUESTIONING, CLOZE_DELETION], ui_theme = ''gamified'',
      flags = [''scoring_system'', ''difficulty_progression''], algorithm = None\<rparr>"
| "mode_configurations FAST_REVIEW =
     \<lparr>time_per_card = 10, cfg_show_hints = False, cfg_allow_retries = False,
      cfg_feedback_detail = ''none'',
      card_styles = [DEFINITION_BASED], ui_theme = ''minimalist'',
      flags = [''auto_advance''], algorithm = None\<rparr>"
| "mode_configurations SPACED_REPETITION =
     \<lparr>time_per_card = 25, cfg_show_hints = True, cfg_allow_retries = True,
      cfg_feedback_detail = ''adaptive'',
      card_styles = [DEFINITION_BASED, CLOZE_DELETION], ui_theme = ''spaced_rep'',
      flags = [''track_intervals''], algorithm = Some ''sm2''\<rparr>"

subsection \<open>What the transformations write into a card\<close>

text \<open>
  The three transformations receive a dictionary, assign some of its keys and return
  it.  Each is modelled by the content of the dictionary after the call, as a function
  of its content before.  \<^verbatim>\<open>random.shuffle\<close> is an input.
\<close>

definition convert_to_multiple_choice :: "(string list \<Rightarrow> string list) \<Rightarrow> card \<Rightarrow> card" where
  "convert_to_multiple_choice shuffle c =
     (if ctype c = Some ''multiple_choice'' then c
      else
        let answer = (case c_back c of None \<Rightarrow> [] | Some b \<Rightarrow> b);
            distractors =
              [''Alternative answer 1'', ''Alternative answer 2'', ''Alternative answer 3'']
        in c\<lparr>ctype := Some ''multiple_choice'',
              choices := Some (shuffle ([answer] @ distractors)),
              correct_answer := Some answer\<rparr>)"

definition convert_to_reverse_questioning :: "card \<Rightarrow> card" where
  "convert_to_reverse_questioning c =
     (let original_front = (case c_front c of None \<Rightarrow> [] | Some f \<Rightarrow> f);
          original_back = (case c_back c of None \<Rightarrow> [] | Some b \<Rightarrow> b)
      in c\<lparr>c_front := Some (''What question would have this answer: '' @ original_back),
            c_back := Some original_front,
            ctype := Some ''reverse_questioning''\<rparr>)"

definition simplify_for_fast_review :: "card \<Rightarrow> card" where
  "simplify_for_fast_review c =
     (let c1 = (case c_front c of
                  None \<Rightarrow> c
                | Some f \<Rightarrow> if length f > 100 then c\<lparr>c_front := Some (take 97 f @ ''...'')\<rparr>
                            else c);
          c2 = (case c_back c1 of
                  None \<Rightarrow> c1
                | Some b \<Rightarrow> if length b > 150 then c1\<lparr>c_back := Some (take 147 b @ ''...'')\<rparr>
                            else c1)
      in c2\<lparr>simplified := Some True\<rparr>)"

text \<open>Lines 145--167: the content of the copy of a card when it is appended to the
  list of personalized cards.\<close>

definition personalize_card ::
  "(string list \<Rightarrow> string list) \<Rightarrow> StudyMode \<Rightarrow> PersonalizationProfile \<Rightarrow> card \<Rightarrow> card" where
  "personalize_card shuffle mode profile c =
     (let mode_config = mode_configurations mode;
          personalized_card =
            (if mode = EXAM_PREP then convert_to_multiple_choice shuffle c
             else if mode = CHALLENGE then convert_to_reverse_questioning c
             else if mode = FAST_REVIEW then simplify_for_fast_review c
             else c);
          ms = \<lparr>time_limit = time_per_card mode_config,
                show_hints = cfg_show_hints mode_config,
                allow_retries = cfg_allow_retries mode_config,
                feedback_detail = cfg_feedback_detail mode_config\<rparr>
      in
        if weak_areas profile \<noteq> [] \<and>
           list_ex (\<lambda>area. area \<in> set (case tags c of None \<Rightarrow> [] | Some ts \<Rightarrow> ts))
             (weak_areas profile)
        then personalized_card\<lparr>
               c_mode_settings := Some (ms\<lparr>time_limit := time_limit ms + 10, show_hints := True\<rparr>),
               adjusted_difficulty := Some ''easier''\<rparr>
        else personalized_card\<lparr>c_mode_settings := Some ms\<rparr>)"

text \<open>Lines 236--241: the priority written into a card by the spaced-repetition
  ordering; and the sort keys of the two orderings.\<close>

definition spaced_priority :: "datetime \<Rightarrow> card \<Rightarrow> error + int" where
  "spaced_priority now c =
     (let lr = dict_get_none (last_reviewed c) in
      if truthy (\<lambda>_. True) lr then
        (case fromisoformat lr of
           Inl e \<Rightarrow> Inl e
         | Inr t \<Rightarrow> days_since now t)
      else Inr 999)"

text \<open>The age of the last review in days, a card that was never reviewed counting as
  999 days old: the priority that the code writes into a card whose \<open>last_reviewed\<close>
  is missing, \<^verbatim>\<open>None\<close> or a naive ISO timestamp.\<close>

definition review_age :: "datetime \<Rightarrow> card \<Rightarrow> int" where
  "review_age now c =
     (case last_reviewed c of Val (Naive t) \<Rightarrow> days_between now t | _ \<Rightarrow> 999)"

text \<open>A timestamp field that the code reads without raising: the key is missing, or it
  holds \<^verbatim>\<open>None\<close> or a naive ISO timestamp.\<close>

fun naive_or_none :: "timestamp py_field \<Rightarrow> bool" where
  "naive_or_none Absent = True"
| "naive_or_none Null = True"
| "naive_or_none (Val (Naive t)) = True"
| "naive_or_none f = False"

definition priority_key :: "card \<Rightarrow> int" where
  "priority_key x = (case priority x of None \<Rightarrow> 0 | Some p \<Rightarrow> p)"

definition difficulty_order :: "card \<Rightarrow> int" where
  "difficulty_order x =
     (let d = (case difficulty x of None \<Rightarrow> ''medium'' | Some d \<Rightarrow> d) in
      if d = ''easy'' then 1 else if d = ''medium'' then 2 else if d = ''hard'' then 3 else 2)"

subsection \<open>The objects of a session\<close>

text \<open>
  Cards are dictionaries and card lists are lists of references to them; both are
  updated in place.  The store holds the objects, an address is a position in it, and
  a new object is put at its end.  A list holds the addresses of its elements.  The
  values under the keys of a card are not objects of the store: the code assigns keys
  and never updates a value in place, but for the \<^verbatim>\<open>mode_settings\<close> dictionary that
  it has just created for the copy.  Where Python raises on a reference that is not of
  the expected kind, the model says \<open>TypeError\<close>.
\<close>

datatype obj = Dict card | PyList "nat list"

type_synonym heap = "obj list"

definition dict_at :: "heap \<Rightarrow> nat \<Rightarrow> card option" where
  "dict_at h a =
     (if a < length h then (case h ! a of Dict c \<Rightarrow> Some c | PyList l \<Rightarrow> None) else None)"

definition list_at :: "heap \<Rightarrow> nat \<Rightarrow> nat list option" where
  "list_at h a =
     (if a < length h then (case h ! a of Dict c \<Rightarrow> None | PyList l \<Rightarrow> Some l) else None)"

text \<open>The cards that the list at an address presents, in the order of the list.\<close>

definition presented :: "heap \<Rightarrow> nat \<Rightarrow> card list" where
  "presented h a =
     (case list_at h a of
        None \<Rightarrow> []
      | Some l \<Rightarrow> concat (map (\<lambda>r. case dict_at h r of None \<Rightarrow> [] | Some c \<Rightarrow> [c]) l))"

text \<open>
  Lines 144--169, the loop of \<^verbatim>\<open>_personalize_cards\<close> over the references of the
  caller's list: \<^verbatim>\<open>card.copy()\<close> makes a new dictionary with the content of the card,
  the transformations write into the new dictionary, and its address is appended to
  the list at \<open>pl\<close> (\<^verbatim>\<open>personalized_cards\<close>).  A reference that is not a dictionary
  raises.  The result is the exception raised, if any, and the store.
\<close>

fun personalize_loop ::
  "(string list \<Rightarrow> string list) \<Rightarrow> StudyMode \<Rightarrow> PersonalizationProfile \<Rightarrow> nat \<Rightarrow>
     nat list \<Rightarrow> heap \<Rightarrow> error option \<times> heap" where
  "personalize_loop shuffle mode profile pl [] h = (None, h)"
| "personalize_loop shuffle mode profile pl (r # rest) h =
     (case dict_at h r of
        None \<Rightarrow> (Some TypeError, h)
      | Some c \<Rightarrow>
          (let a = length h;
               h1 = h @ [Dict c];
               h2 = h1[a := Dict (personalize_card shuffle mode profile c)];
               h3 = (case list_at h2 pl of
                       None \<Rightarrow> h2
                     | Some l \<Rightarrow> h2[pl := PyList (l @ [a])])
           in personalize_loop shuffle mode profile pl rest h3))"

text \<open>Lines 235--241: the loop of \<^verbatim>\<open>_apply_spaced_repetition_order\<close>, which writes
  the priority into each card of the list.\<close>

fun priority_loop :: "datetime \<Rightarrow> nat list \<Rightarrow> heap \<Rightarrow> error option \<times> heap" where
  "priority_loop now [] h = (None, h)"
| "priority_loop now (a # rest) h =
     (case dict_at h a of
        None \<Rightarrow> (Some TypeError, h)
      | Some c \<Rightarrow>
          (case spaced_priority now c of
             Inl e \<Rightarrow> (Some e, h)
           | Inr p \<Rightarrow> priority_loop now rest (h[a := Dict (c\<lparr>priority := Some p\<rparr>)])))"

text \<open>The sort key of a reference: the key of the card it refers to.\<close>

definition key_at :: "(card \<Rightarrow> int) \<Rightarrow> heap \<Rightarrow> nat \<Rightarrow> int" where
  "key_at k h a = (case dict_at h a of None \<Rightarrow> 0 | Some c \<Rightarrow> k c)"

text \<open>
  \<^verbatim>\<open>_apply_spaced_repetition_order(cards, profile)\<close> on the list at \<open>cards_ref\<close>:
  \<^verbatim>\<open>cards.sort(key=..., reverse=True)\<close> sorts the list in place, highest priority
  first, and keeps the order of cards of equal priority.
\<close>

definition apply_spaced_repetition_order :: "datetime \<Rightarrow> nat \<Rightarrow> heap \<Rightarrow> error option \<times> heap" where
  "apply_spaced_repetition_order now cards_ref h =
     (case list_at h cards_ref of
        None \<Rightarrow> (Some TypeError, h)
      | Some l \<Rightarrow>
          (case priority_loop now l h of
             (Some e, h1) \<Rightarrow> (Some e, h1)
           | (None, h1) \<Rightarrow>
               (None, h1[cards_ref := PyList (sort_key (\<lambda>a. - key_at priority_key h1 a) l)])))"

text \<open>\<^verbatim>\<open>_apply_difficulty_progression(cards)\<close>: the list is sorted in place from easy
  to hard.\<close>

definition apply_difficulty_progression :: "nat \<Rightarrow> heap \<Rightarrow> error option \<times> heap" where
  "apply_difficulty_progression cards_ref h =
     (case list_at h cards_ref of
        None \<Rightarrow> (Some TypeError, h)
      | Some l \<Rightarrow> (None, h[cards_ref := PyList (sort_key (key_at difficulty_order h) l)]))"

text \<open>
  \<^verbatim>\<open>_personalize_cards(cards, mode, profile)\<close>: \<open>cards_ref\<close> is the caller's list.  The
  result is the address of the list of personalized cards, or the exception raised,
  together with the store.
\<close>

definition personalize_cards ::
  "datetime \<Rightarrow> (string list \<Rightarrow> string list) \<Rightarrow> nat \<Rightarrow> StudyMode \<Rightarrow> PersonalizationProfile \<Rightarrow>
     heap \<Rightarrow> (error + nat) \<times> heap" where
  "personalize_cards now shuffle cards_ref mode profile h =
     (let pl = length h;
          h0 = h @ [PyList []]
      in case list_at h0 cards_ref of
           None \<Rightarrow> (Inl TypeError, h0)
         | Some l \<Rightarrow>
            (case personalize_loop shuffle mode profile pl l h0 of
               (Some e, h1) \<Rightarrow> (Inl e, h1)
             | (None, h1) \<Rightarrow>
                 if mode = SPACED_REPETITION then
                   (case apply_spaced_repetition_order now pl h1 of
                      (Some e, h2) \<Rightarrow> (Inl e, h2)
                    | (None, h2) \<Rightarrow> (Inr pl, h2))
                 else if mode = CHALLENGE then
                   (case apply_difficulty_progression pl h1 of
                      (Some e, h2) \<Rightarrow> (Inl e, h2)
                    | (None, h2) \<Rightarrow> (Inr pl, h2))
                 else (Inr pl, h1)))"

text \<open>The session object; \<open>session_cards\<close> is the address of its list of cards.  The
  session id is made of the user id and the time of creation.\<close>

record StudySession =
  session_id :: "string \<times> datetime"
  session_user_id :: string
  session_mode :: StudyMode
  session_cards :: nat
  current_card_index :: nat
  start_time :: datetime
  session_responses :: "response list"
  settings :: mode_configuration

text \<open>
  \<^verbatim>\<open>create_personalized_session(user_id, cards, mode)\<close>: the result is the session or
  the exception raised, with the profiles and the store as the call leaves them.
\<close>

definition create_personalized_session ::
  "datetime \<Rightarrow> (string list \<Rightarrow> string list) \<Rightarrow> (string \<rightharpoonup> PersonalizationProfile) \<Rightarrow>
     heap \<Rightarrow> string \<Rightarrow> nat \<Rightarrow> StudyMode option \<Rightarrow>
     (error + StudySession) \<times> (string \<rightharpoonup> PersonalizationProfile) \<times> heap" where
  "create_personalized_session now shuffle user_profiles h uid cards_ref mode_arg =
     (let (profile, user_profiles1) = get_user_profile user_profiles uid;
          mode = (case mode_arg of
                    Some m \<Rightarrow> m
                  | None \<Rightarrow> (case preferred_modes profile of
                               [] \<Rightarrow> BASIC_EDUCATIONAL
                             | m # ms \<Rightarrow> m))
      in case personalize_cards now shuffle cards_ref mode profile h of
           (Inl e, h1) \<Rightarrow> (Inl e, user_profiles1, h1)
         | (Inr personalized_cards, h1) \<Rightarrow>
             (Inr \<lparr>session_id = (uid, now), session_user_id = uid, session_mode = mode,
                   session_cards = personalized_cards, current_card_index = 0,
                   start_time = now, session_responses = [],
                   settings = mode_configurations mode\<rparr>,
              user_profiles1, h1))"

section \<open>Properties of the scheduler\<close>

lemma py_index_intervals:
  "0 \<le> k \<Longrightarrow> k \<le> 5 \<Longrightarrow>
     py_index spaced_repetition_intervals k = Inr (spaced_repetition_intervals ! nat k)"
  by (simp add: py_index_def spaced_repetition_intervals_def)

lemma py_index_intervals_high:
  "5 < k \<Longrightarrow> py_index spaced_repetition_intervals k = Inl IndexError"
  by (simp add: py_index_def spaced_repetition_intervals_def)

text \<open>
  Claim C1, as the code has it.  For a non-empty history whose latest record carries
  \<open>interval_index = i\<close> and whose latest accuracy is \<open>accuracy\<close> (\<open>0.5\<close> when the key
  is missing), \<open>calculate_next_review\<close> selects \<open>k = min (i + 1) 5\<close> when
  \<open>accuracy \<ge> 0.9\<close>, \<open>k = i\<close> when \<open>0.7 \<le> accuracy < 0.9\<close> and \<open>k = max 0 (i - 1)\<close>
  otherwise.  When \<open>0 \<le> k \<le> 5\<close>, which is so whenever \<open>0 \<le> i \<le> 5\<close>, the result is
  \<open>now\<close> plus \<open>max 1 (table[k] + jitter)\<close> days; a negative \<open>k \<ge> -6\<close> reads the table from
  its end, as every Python subscript does; any other \<open>k\<close> raises \<open>IndexError\<close>.
\<close>

theorem calculate_next_review_index:
  assumes "history \<noteq> []"
    and "p_interval_index (last history) = Val i"
    and "dict_get (p_accuracy (last history)) (1 / 2) = Val accuracy"
    and "k = (if accuracy \<ge> 9 / 10 then min (i + 1) 5
              else if accuracy \<ge> 7 / 10 then i
              else max 0 (i - 1))"
  shows "calculate_next_review now randomization history =
     (if 0 \<le> k \<and> k \<le> 5 then
        Inr (now + timedelta_days (max 1 ([1, 3, 7, 14, 30, 90] ! nat k + randomization)))
      else if - 6 \<le> k \<and> k < 0 then
        Inr (now + timedelta_days (max 1 ([1, 3, 7, 14, 30, 90] ! nat (6 + k) + randomization)))
      else Inl IndexError)"
  using assms
  by (auto simp: calculate_next_review_def next_interval_index_def py_index_def Let_def
      spaced_repetition_intervals_def min_def max_def)

text \<open>At the top of the table an accuracy of 1 stays at 90 days; with a jitter of one
  day the review is due in 91 days.\<close>

theorem calculate_next_review_index_witness:
  "calculate_next_review 0 1
     [\<lparr>p_date = Absent, p_accuracy = Val 1, p_interval_index = Val 5, p_duration = Absent\<rparr>]
   = Inr (timedelta_days 91)"
  using calculate_next_review_index [of
     "[\<lparr>p_date = Absent, p_accuracy = Val 1, p_interval_index = Val 5, p_duration = Absent\<rparr>]"
     5 1 5 0 1]
  by simp

text \<open>A stored index of 6 with an accuracy of 0.8 is kept as it is, and the table has
  no position 6: the call raises instead of returning a review date.\<close>

theorem calculate_next_review_counterexample:
  "calculate_next_review 0 0
     [\<lparr>p_date = Absent, p_accuracy = Val (4 / 5), p_interval_index = Val 6,
       p_duration = Absent\<rparr>] = Inl IndexError"
  by (simp add: calculate_next_review_def next_interval_index_def py_index_def Let_def
      spaced_repetition_intervals_def)

subsection \<open>Cards due for review\<close>

lemma due_loop_naive:
  "\<forall>c \<in> set all_cards. naive_or_none (next_review c) \<Longrightarrow>
   due_loop current_time all_cards due_cards =
     Inr (due_cards @ filter (\<lambda>c. next_review c \<in> {Absent, Null} \<or>
            (\<exists>t. next_review c = Val (Naive t) \<and> t \<le> current_time)) all_cards)"
proof (induction all_cards arbitrary: due_cards)
  case Nil
  then show ?case by simp
next
  case (Cons c rest)
  then have ih: "\<And>acc. due_loop current_time rest acc =
     Inr (acc @ filter (\<lambda>c. next_review c \<in> {Absent, Null} \<or>
            (\<exists>t. next_review c = Val (Naive t) \<and> t \<le> current_time)) rest)"
    by simp
  from Cons.prems have n: "naive_or_none (next_review c)" by simp
  show ?case
  proof (cases "next_review c")
    case (Val ts)
    with n obtain t where "ts = Naive t" by (cases ts) simp_all
    with Val show ?thesis by (simp add: ih)
  qed (use n in \<open>simp_all add: ih\<close>)
qed

text \<open>
  Claim C7, restricted to the inputs on which the code returns.  When the
  \<open>next_review\<close> of every card is missing, \<^verbatim>\<open>None\<close> or a naive ISO timestamp,
  \<open>get_cards_due_for_review\<close> returns exactly the cards without a recorded timestamp
  (key absent or \<^verbatim>\<open>None\<close>) and the cards whose timestamp is at or before the current
  time, in the order of the input.
\<close>

theorem get_cards_due_for_review_filter:
  assumes "\<forall>c \<in> set all_cards. naive_or_none (next_review c)"
  shows "get_cards_due_for_review current_time all_cards =
     Inr (filter (\<lambda>c. next_review c \<in> {Absent, Null} \<or>
            (\<exists>t. next_review c = Val (Naive t) \<and> t \<le> current_time)) all_cards)"
  using due_loop_naive [OF assms, of current_time "[]"]
  by (simp add: get_cards_due_for_review_def)

text \<open>Of five cards, the one due in the future is dropped and the others keep their
  order.\<close>

theorem get_cards_due_for_review_filter_witness:
  "get_cards_due_for_review 10
     [empty_card\<lparr>next_review := Val (Naive 5)\<rparr>, empty_card\<lparr>c_front := Some ''a''\<rparr>,
      empty_card\<lparr>next_review := Val (Naive 11)\<rparr>, empty_card\<lparr>next_review := Null\<rparr>,
      empty_card\<lparr>next_review := Val (Naive 10)\<rparr>]
   = Inr [empty_card\<lparr>next_review := Val (Naive 5)\<rparr>, empty_card\<lparr>c_front := Some ''a''\<rparr>,
          empty_card\<lparr>next_review := Null\<rparr>, empty_card\<lparr>next_review := Val (Naive 10)\<rparr>]"
  using get_cards_due_for_review_filter [of
     "[empty_card\<lparr>next_review := Val (Naive 5)\<rparr>, empty_card\<lparr>c_front := Some ''a''\<rparr>,
       empty_card\<lparr>next_review := Val (Naive 11)\<rparr>, empty_card\<lparr>next_review := Null\<rparr>,
       empty_card\<lparr>next_review := Val (Naive 10)\<rparr>]" 10]
  by (simp add: empty_card_def)

text \<open>
  Not every card list is answered.  A card whose timestamp carries a UTC offset and
  shows a time before the current one is not returned as due: comparing it with the
  naive current time raises \<^verbatim>\<open>TypeError\<close>.  A card whose \<open>next_review\<close> is a string that
  is not a timestamp raises \<^verbatim>\<open>ValueError\<close>, even when another card of the list is due.
\<close>

theorem get_cards_due_for_review_counterexample:
  "get_cards_due_for_review 10 [empty_card\<lparr>next_review := Val (Aware 5)\<rparr>] = Inl TypeError
   \<and> get_cards_due_for_review 10 [empty_card, empty_card\<lparr>next_review := Invalid\<rparr>]
       = Inl ValueError"
  by (simp add: get_cards_due_for_review_def empty_card_def)

subsection \<open>The best hour and the recommended duration\<close>

lemma numerics_Val: "numerics (map Val xs) = Inr xs"
  by (induction xs) simp_all

lemma complete_session_fields:
  assumes "complete_session s"
  obtains t a d where "p_date s = Val t" "p_accuracy s = Val a" "p_duration s = Val d"
  using assms unfolding complete_session_def
  by (cases "p_date s"; cases "p_accuracy s"; cases "p_duration s") simp_all

lemma bucket_loop_complete:
  "\<forall>s \<in> set hs. complete_session s \<Longrightarrow>
   bucket_loop hs tp = Inr (foldl bucket_step tp hs)"
proof (induction hs arbitrary: tp)
  case Nil
  then show ?case by simp
next
  case (Cons s hs)
  then have c: "complete_session s" by simp
  from c obtain t a d where f: "p_date s = Val t" "p_accuracy s = Val a" "p_duration s = Val d"
    by (rule complete_session_fields)
  from Cons have ih: "\<And>tp. bucket_loop hs tp = Inr (foldl bucket_step tp hs)" by simp
  have "bucket_step tp s = bucket_append (hour_of (wall_clock t)) (Val a) tp"
    by (simp add: bucket_step_def session_hour_def f)
  then show ?case by (simp add: f ih)
qed

lemma keys_bucket_append:
  "map fst (bucket_append h a tp) = (if h \<in> fst ` set tp then map fst tp else map fst tp @ [h])"
  by (induction tp) force+

lemma map_of_bucket_append:
  "map_of (bucket_append h a tp) =
     (map_of tp)(h \<mapsto> (case map_of tp h of None \<Rightarrow> [] | Some v \<Rightarrow> v) @ [a])"
  by (induction tp) (auto simp: fun_eq_iff)

lemma first_seen_snoc_old:
  "h \<in> session_hour ` set hs \<Longrightarrow> first_seen h (hs @ [s]) = first_seen h hs"
  unfolding first_seen_def by (induction hs) auto

lemma first_seen_snoc_new:
  "session_hour s \<notin> session_hour ` set hs \<Longrightarrow> first_seen (session_hour s) (hs @ [s]) = length hs"
  unfolding first_seen_def by (induction hs) auto

lemma first_seen_less:
  "h \<in> session_hour ` set hs \<Longrightarrow> first_seen h hs < length hs"
  unfolding first_seen_def by (induction hs) auto

lemma buckets_snoc: "buckets (hs @ [s]) = bucket_append (session_hour s) (p_accuracy s) (buckets hs)"
  by (simp add: buckets_def bucket_step_def)

lemma buckets_keys_set: "fst ` set (buckets hs) = session_hour ` set hs"
proof (induction hs rule: rev_induct)
  case Nil
  then show ?case by (simp add: buckets_def)
next
  case (snoc s hs)
  have "fst ` set (buckets (hs @ [s])) = set (map fst (buckets (hs @ [s])))" by simp
  also have "\<dots> = insert (session_hour s) (fst ` set (buckets hs))"
    unfolding buckets_snoc keys_bucket_append by auto
  finally show ?case using snoc by auto
qed

lemma buckets_distinct: "distinct (map fst (buckets hs))"
proof (induction hs rule: rev_induct)
  case Nil
  then show ?case by (simp add: buckets_def)
next
  case (snoc s hs)
  then show ?case unfolding buckets_snoc keys_bucket_append by auto
qed

lemma buckets_map_of:
  "map_of (buckets hs) h =
     (if h \<in> session_hour ` set hs
      then Some (map p_accuracy (filter (\<lambda>s. session_hour s = h) hs)) else None)"
proof (induction hs rule: rev_induct)
  case Nil
  then show ?case by (simp add: buckets_def)
next
  case (snoc s hs)
  show ?case
    unfolding buckets_snoc map_of_bucket_append
    using snoc by (force simp: filter_empty_conv image_iff)
qed

lemma buckets_order:
  "sorted_wrt (\<lambda>x y. first_seen x hs < first_seen y hs) (map fst (buckets hs))"
proof (induction hs rule: rev_induct)
  case Nil
  then show ?case by (simp add: buckets_def)
next
  case (snoc s hs)
  let ?ks = "map fst (buckets hs)"
  have ks: "set ?ks = session_hour ` set hs" using buckets_keys_set [of hs] by simp
  have old: "sorted_wrt (\<lambda>x y. first_seen x (hs @ [s]) < first_seen y (hs @ [s])) ?ks"
    using snoc
    by (rule sorted_wrt_mono_rel [rotated]) (simp add: buckets_keys_set first_seen_snoc_old)
  show ?case
  proof (cases "session_hour s \<in> session_hour ` set hs")
    case True
    then show ?thesis unfolding buckets_snoc keys_bucket_append using old buckets_keys_set [of hs] by simp
  next
    case False
    have "\<forall>x \<in> set ?ks. first_seen x (hs @ [s]) < first_seen (session_hour s) (hs @ [s])"
    proof
      fix x assume "x \<in> set ?ks"
      then have "x \<in> session_hour ` set hs" using ks by simp
      then show "first_seen x (hs @ [s]) < first_seen (session_hour s) (hs @ [s])"
        using False by (simp add: first_seen_snoc_old first_seen_snoc_new first_seen_less)
    qed
    with old False show ?thesis
      unfolding buckets_snoc keys_bucket_append using buckets_keys_set [of hs]
      by (simp add: sorted_wrt_append)
  qed
qed

lemma first_best_here:
  "start < m h \<Longrightarrow> \<forall>k \<in> fst ` set rest. m k \<le> m h \<Longrightarrow>
   first_best m ((h, accs) # rest) start h"
  unfolding first_best_def
  by (rule exI [of _ "[]"], rule exI [of _ accs], rule exI [of _ rest]) simp

lemma first_best_later:
  assumes "first_best m rest b r" and "start \<le> b" and "m h \<le> b"
  shows "first_best m ((h, accs) # rest) start r"
proof -
  from assms(1) obtain pre accs' post where
    s: "rest = pre @ (r, accs') # post" "b < m r"
       "\<forall>k \<in> fst ` set pre. m k < m r" "\<forall>k \<in> fst ` set post. m k \<le> m r"
    unfolding first_best_def by blast
  have "(h, accs) # rest = ((h, accs) # pre) @ (r, accs') # post" using s(1) by simp
  moreover have "start < m r" using s(2) assms(2) by simp
  moreover have "\<forall>k \<in> fst ` set ((h, accs) # pre). m k < m r"
    using s(2,3) assms(3) by auto
  ultimately show ?thesis
    unfolding first_best_def using s(4) by blast
qed

lemma best_hour_loop_split:
  assumes "\<forall>(h, accs) \<in> set tp. np_mean fmean accs = Inr (m h)"
  shows "\<exists>r. best_hour_loop fmean tp bh0 ba0 = Inr r \<and>
     ((\<forall>h \<in> fst ` set tp. m h \<le> ba0) \<and> r = bh0 \<or> first_best m tp ba0 r)"
  using assms
proof (induction tp arbitrary: bh0 ba0)
  case Nil
  then show ?case by simp
next
  case (Cons p rest)
  obtain h accs where p: "p = (h, accs)" by (cases p)
  from Cons.prems p have mh: "np_mean fmean accs = Inr (m h)" by simp
  from Cons.prems have rest: "\<forall>(h, accs) \<in> set rest. np_mean fmean accs = Inr (m h)" by simp
  show ?case
  proof (cases "ba0 < m h")
    case True
    from Cons.IH [OF rest, of h "m h"] obtain r where
      r: "best_hour_loop fmean rest h (m h) = Inr r"
      and d: "(\<forall>k \<in> fst ` set rest. m k \<le> m h) \<and> r = h \<or> first_best m rest (m h) r"
      by blast
    have run: "best_hour_loop fmean (p # rest) bh0 ba0 = Inr r"
      using True r by (simp add: p mh)
    have "first_best m (p # rest) ba0 r"
      using d
    proof
      assume "(\<forall>k \<in> fst ` set rest. m k \<le> m h) \<and> r = h"
      then show ?thesis unfolding p using True by (simp add: first_best_here)
    next
      assume "first_best m rest (m h) r"
      then show ?thesis unfolding p using True by (intro first_best_later [of m rest "m h"]) simp_all
    qed
    with run show ?thesis by blast
  next
    case False
    from Cons.IH [OF rest, of bh0 ba0] obtain r where
      r: "best_hour_loop fmean rest bh0 ba0 = Inr r"
      and d: "(\<forall>k \<in> fst ` set rest. m k \<le> ba0) \<and> r = bh0 \<or> first_best m rest ba0 r"
      by blast
    have run: "best_hour_loop fmean (p # rest) bh0 ba0 = Inr r"
      using False r by (simp add: p mh)
    from d show ?thesis
    proof
      assume "(\<forall>k \<in> fst ` set rest. m k \<le> ba0) \<and> r = bh0"
      then have "(\<forall>k \<in> fst ` set (p # rest). m k \<le> ba0) \<and> r = bh0"
        using False p by simp
      with run show ?thesis by blast
    next
      assume "first_best m rest ba0 r"
      then have "first_best m (p # rest) ba0 r"
        unfolding p using False by (intro first_best_later [of m rest ba0]) simp_all
      with run show ?thesis by blast
    qed
  qed
qed

lemma buckets_entry:
  assumes "(h, accs) \<in> set (buckets hs)"
  shows "h \<in> session_hour ` set hs \<and> accs = map p_accuracy (filter (\<lambda>s. session_hour s = h) hs)"
proof -
  from assms have "map_of (buckets hs) h = Some accs"
    using buckets_distinct [of hs] by simp
  then show ?thesis
    by (simp add: buckets_map_of split: if_splits)
qed

lemma complete_accuracies:
  "\<forall>s \<in> set hs. complete_session s \<Longrightarrow> map p_accuracy hs = map Val (map session_accuracy hs)"
proof (induction hs)
  case Nil
  then show ?case by simp
next
  case (Cons s hs)
  then have "complete_session s" by simp
  then obtain t a d where "p_date s = Val t" "p_accuracy s = Val a" "p_duration s = Val d"
    by (rule complete_session_fields)
  with Cons show ?case by (simp add: session_accuracy_def)
qed

lemma buckets_mean:
  assumes "\<forall>s \<in> set hs. complete_session s"
  shows "\<forall>(h, accs) \<in> set (buckets hs). np_mean fmean accs = Inr (hour_mean fmean hs h)"
proof (clarify)
  fix h accs assume "(h, accs) \<in> set (buckets hs)"
  then have "accs = map p_accuracy (filter (\<lambda>s. session_hour s = h) hs)"
    using buckets_entry by blast
  also have "\<dots> = map Val (map session_accuracy (filter (\<lambda>s. session_hour s = h) hs))"
    using assms by (intro complete_accuracies) simp
  finally show "np_mean fmean accs = Inr (hour_mean fmean hs h)"
    unfolding np_mean_def hour_mean_def by (simp only: numerics_Val sum.case)
qed

lemma durations_of_complete:
  "\<forall>s \<in> set hs. complete_session s \<Longrightarrow>
   durations_of hs = Inr (map Val (map session_duration hs))"
proof (induction hs)
  case Nil
  then show ?case by simp
next
  case (Cons s hs)
  then have "complete_session s" by simp
  then obtain t a d where "p_date s = Val t" "p_accuracy s = Val a" "p_duration s = Val d"
    by (rule complete_session_fields)
  with Cons show ?case by (simp add: session_duration_def)
qed

lemma first_best_props:
  assumes fb: "first_best m tp start r"
    and ord: "sorted_wrt (\<lambda>x y. (pos x :: nat) < pos y) (map fst tp)"
  shows "r \<in> fst ` set tp" and "start < m r"
    and "\<forall>h \<in> fst ` set tp. m h \<le> m r"
    and "\<forall>h \<in> fst ` set tp. m h = m r \<longrightarrow> pos r \<le> pos h"
proof -
  from fb obtain pre accs post where
    s: "tp = pre @ (r, accs) # post" "start < m r"
       "\<forall>k \<in> fst ` set pre. m k < m r" "\<forall>k \<in> fst ` set post. m k \<le> m r"
    unfolding first_best_def by blast
  show "r \<in> fst ` set tp" using s(1) by force
  show "start < m r" by (rule s(2))
  have keys: "fst ` set tp = fst ` set pre \<union> {r} \<union> fst ` set post"
    using s(1) by auto
  show "\<forall>h \<in> fst ` set tp. m h \<le> m r"
    unfolding keys using s(3,4) by auto
  from ord have after: "\<forall>h \<in> fst ` set post. pos r < pos h"
    unfolding s(1) by (simp add: sorted_wrt_append)
  show "\<forall>h \<in> fst ` set tp. m h = m r \<longrightarrow> pos r \<le> pos h"
    unfolding keys using s(3) after by auto
qed

lemma numerics_Val_map: "numerics (map (\<lambda>x. Val (f x)) xs) = Inr (map f xs)"
  by (induction xs) simp_all

lemma np_median_Val: "np_median fmedian (map (Val \<circ> f) xs) = Inr (fmedian (map f xs))"
  by (simp add: np_median_def comp_def numerics_Val_map)

text \<open>
  Claim C5, as the code has it.  Whatever numbers \<^verbatim>\<open>np.mean\<close> and \<^verbatim>\<open>np.median\<close> compute
  (\<open>fmean\<close> and \<open>fmedian\<close>), for a non-empty history of \<open>n\<close> complete sessions
  \<open>suggest_optimal_study_time\<close> returns: the hour whose sessions have the highest
  computed mean accuracy, the hour seen first winning among the hours whose computed
  means are equal, provided that mean is positive, and the default hour 9 when no hour
  has a positive computed mean; the computed median of the durations truncated to an
  integer; and the confidence \<open>min 0.9 (n / 10)\<close>.  The order of the hours is the
  order of the computed means: two hours whose exact means are equal are tied only
  if the two computations round to the same number.
\<close>

theorem suggest_optimal_study_time_complete:
  assumes ne: "hs \<noteq> []" and c: "\<forall>s \<in> set hs. complete_session s"
  shows "\<exists>best_hour. suggest_optimal_study_time fmean fmedian hs =
       Inr \<lparr>recommended_time = fmt_hour best_hour,
            recommended_duration = py_int (fmedian (map session_duration hs)),
            confidence = min (9 / 10) (of_nat (length hs) / 10),
            reasoning = Some (length hs)\<rparr> \<and>
     (if \<forall>s \<in> set hs. hour_mean fmean hs (session_hour s) \<le> 0 then best_hour = 9
      else best_hour \<in> session_hour ` set hs \<and>
        (\<forall>s \<in> set hs. hour_mean fmean hs (session_hour s) \<le> hour_mean fmean hs best_hour) \<and>
        (\<forall>s \<in> set hs. hour_mean fmean hs (session_hour s) = hour_mean fmean hs best_hour \<longrightarrow>
            first_seen best_hour hs \<le> first_seen (session_hour s) hs))"
proof -
  have tp: "bucket_loop hs [] = Inr (buckets hs)"
    using bucket_loop_complete [OF c, of "[]"] by (simp add: buckets_def)
  from best_hour_loop_split [OF buckets_mean [OF c, of fmean], of 9 0] obtain r where
    r: "best_hour_loop fmean (buckets hs) 9 0 = Inr r"
    and d: "(\<forall>h \<in> fst ` set (buckets hs). hour_mean fmean hs h \<le> 0) \<and> r = 9 \<or>
            first_best (hour_mean fmean hs) (buckets hs) 0 r"
    by blast
  have res: "suggest_optimal_study_time fmean fmedian hs =
       Inr \<lparr>recommended_time = fmt_hour r,
            recommended_duration = py_int (fmedian (map session_duration hs)),
            confidence = min (9 / 10) (of_nat (length hs) / 10),
            reasoning = Some (length hs)\<rparr>"
    using ne by (simp add: suggest_optimal_study_time_def tp r durations_of_complete [OF c]
        np_median_Val)
  have keys: "fst ` set (buckets hs) = session_hour ` set hs" by (rule buckets_keys_set)
  have "if \<forall>s \<in> set hs. hour_mean fmean hs (session_hour s) \<le> 0 then r = 9
      else r \<in> session_hour ` set hs \<and>
        (\<forall>s \<in> set hs. hour_mean fmean hs (session_hour s) \<le> hour_mean fmean hs r) \<and>
        (\<forall>s \<in> set hs. hour_mean fmean hs (session_hour s) = hour_mean fmean hs r \<longrightarrow>
            first_seen r hs \<le> first_seen (session_hour s) hs)"
  proof (cases "first_best (hour_mean fmean hs) (buckets hs) 0 r")
    case True
    note fb = first_best_props [OF True buckets_order, unfolded keys]
    from fb(1,2) have "\<not> (\<forall>s \<in> set hs. hour_mean fmean hs (session_hour s) \<le> 0)" by force
    moreover from fb(3) have "\<forall>s \<in> set hs. hour_mean fmean hs (session_hour s) \<le> hour_mean fmean hs r"
      by simp
    moreover from fb(4) have "\<forall>s \<in> set hs.
        hour_mean fmean hs (session_hour s) = hour_mean fmean hs r \<longrightarrow>
            first_seen r hs \<le> first_seen (session_hour s) hs" by simp
    ultimately show ?thesis using fb(1) by auto
  next
    case False
    with d have "(\<forall>h \<in> session_hour ` set hs. hour_mean fmean hs h \<le> 0) \<and> r = 9"
      unfolding keys by blast
    then show ?thesis by simp
  qed
  with res show ?thesis by blast
qed

text \<open>Three sessions at 14, 15 and 16 o'clock, the second with a UTC offset, of
  accuracies 0.5, 0.75 and 0.75 and of 20, 40 and 25 minutes.  Each hour has one
  session, whose accuracy is its mean, and the median is the middle duration, so that
  nothing is rounded.  The last two hours share the best mean, and the earlier one is
  recommended.\<close>

theorem suggest_optimal_study_time_complete_witness:
  "suggest_optimal_study_time exact_mean exact_median
     [\<lparr>p_date = Val (Naive 50400000000), p_accuracy = Val (1 / 2), p_interval_index = Absent,
       p_duration = Val 20\<rparr>,
      \<lparr>p_date = Val (Aware 54000000000), p_accuracy = Val (3 / 4), p_interval_index = Absent,
       p_duration = Val 40\<rparr>,
      \<lparr>p_date = Val (Naive 57600000000), p_accuracy = Val (3 / 4), p_interval_index = Absent,
       p_duration = Val 25\<rparr>]
   = Inr \<lparr>recommended_time = ''15:00'', recommended_duration = 25, confidence = 3 / 10,
          reasoning = Some 3\<rparr>"
proof -
  let ?hs = "[\<lparr>p_date = Val (Naive 50400000000), p_accuracy = Val (1 / 2), p_interval_index = Absent,
       p_duration = Val 20\<rparr>,
      \<lparr>p_date = Val (Aware 54000000000), p_accuracy = Val (3 / 4), p_interval_index = Absent,
       p_duration = Val 40\<rparr>,
      \<lparr>p_date = Val (Naive 57600000000), p_accuracy = Val (3 / 4), p_interval_index = Absent,
       p_duration = Val 25\<rparr>]"
  have hours: "map session_hour ?hs = [14, 15, 16]"
    by (simp add: session_hour_def hour_of_def usec_per_hour_def)
  have "?hs \<noteq> []" and "\<forall>s \<in> set ?hs. complete_session s"
    by (simp_all add: complete_session_def)
  from suggest_optimal_study_time_complete [OF this, of exact_mean exact_median] obtain bh where
    res: "suggest_optimal_study_time exact_mean exact_median ?hs =
       Inr \<lparr>recommended_time = fmt_hour bh,
            recommended_duration = py_int (exact_median (map session_duration ?hs)),
            confidence = min (9 / 10) (of_nat (length ?hs) / 10),
            reasoning = Some (length ?hs)\<rparr>"
    and sel: "if \<forall>s \<in> set ?hs. hour_mean exact_mean ?hs (session_hour s) \<le> 0 then bh = 9
      else bh \<in> session_hour ` set ?hs \<and>
        (\<forall>s \<in> set ?hs. hour_mean exact_mean ?hs (session_hour s) \<le> hour_mean exact_mean ?hs bh) \<and>
        (\<forall>s \<in> set ?hs. hour_mean exact_mean ?hs (session_hour s) = hour_mean exact_mean ?hs bh \<longrightarrow>
            first_seen bh ?hs \<le> first_seen (session_hour s) ?hs)"
    by blast
  have m: "hour_mean exact_mean ?hs 14 = 1 / 2" "hour_mean exact_mean ?hs 15 = 3 / 4"
      "hour_mean exact_mean ?hs 16 = 3 / 4"
    by (simp_all add: hour_mean_def session_hour_def hour_of_def usec_per_hour_def exact_mean_def
        session_accuracy_def)
  have f: "first_seen 15 ?hs = 1" "first_seen 16 ?hs = 2"
    by (simp_all add: first_seen_def session_hour_def hour_of_def usec_per_hour_def)
  have sh: "session_hour ` set ?hs = {14, 15, 16}" using hours
    by (metis list.set_map list.simps(15) empty_set)
  from sel have "bh = 15"
    unfolding sh ball_simps apply (simp add: session_hour_def hour_of_def usec_per_hour_def m f split: if_splits)
    by (auto simp: m f)
  with res show ?thesis
    by (simp add: fmt_hour_def session_duration_def exact_median_def py_int_def)
qed

text \<open>
  Two sessions at 14 o'clock with accuracy 0, of 20 and 25 minutes.  The mean of two
  zeros is 0 and the median of 20 and 25 is 22.5, also in floating point.  The only
  hour of the history, hence the one with the highest mean accuracy, is 14, and the
  median duration is 22.5; the code recommends 09:00 and 22 minutes.
\<close>

theorem suggest_optimal_study_time_counterexample:
  "suggest_optimal_study_time exact_mean exact_median
     [\<lparr>p_date = Val (Naive 50400000000), p_accuracy = Val 0, p_interval_index = Absent,
       p_duration = Val 20\<rparr>,
      \<lparr>p_date = Val (Naive 50400000000), p_accuracy = Val 0, p_interval_index = Absent,
       p_duration = Val 25\<rparr>]
   = Inr \<lparr>recommended_time = ''09:00'', recommended_duration = 22, confidence = 1 / 5,
          reasoning = Some 2\<rparr>"
  by (simp add: suggest_optimal_study_time_def hour_of_def usec_per_hour_def np_mean_def
      exact_mean_def np_median_def exact_median_def py_int_def fmt_hour_def floor_eq_iff)

text \<open>
  Rounding decides between hours of equal exact mean.  One session at 14 o'clock and
  three at 15 o'clock, all of the same accuracy: when the computed mean of the three
  equal numbers exceeds the number itself, as the floating-point mean of three times
  \<^verbatim>\<open>0.8\<close> does, the later hour is recommended.
\<close>

lemma suggest_optimal_study_time_rounding:
  assumes "0 < fmean [a]" and "fmean [a] < fmean [a, a, a]"
  shows "\<exists>d. suggest_optimal_study_time fmean fmedian
     [\<lparr>p_date = Val (Naive 50400000000), p_accuracy = Val a, p_interval_index = Absent,
       p_duration = Val 30\<rparr>,
      \<lparr>p_date = Val (Naive 54000000000), p_accuracy = Val a, p_interval_index = Absent,
       p_duration = Val 30\<rparr>,
      \<lparr>p_date = Val (Naive 54000000000), p_accuracy = Val a, p_interval_index = Absent,
       p_duration = Val 30\<rparr>,
      \<lparr>p_date = Val (Naive 54000000000), p_accuracy = Val a, p_interval_index = Absent,
       p_duration = Val 30\<rparr>]
   = Inr \<lparr>recommended_time = ''15:00'', recommended_duration = d, confidence = 2 / 5,
          reasoning = Some 4\<rparr>"
  using assms
  by (simp add: suggest_optimal_study_time_def hour_of_def usec_per_hour_def np_mean_def
      np_median_def fmt_hour_def)

subsection \<open>Missing and malformed fields\<close>

lemma calculate_next_review_missing_accuracy:
  "calculate_next_review now r (hs @ [p\<lparr>p_accuracy := Absent\<rparr>]) =
   calculate_next_review now r (hs @ [p\<lparr>p_accuracy := Val (1 / 2)\<rparr>])"
  by (simp add: calculate_next_review_def)

lemma calculate_next_review_missing_index:
  "calculate_next_review now r (hs @ [p\<lparr>p_interval_index := Absent\<rparr>]) =
   calculate_next_review now r (hs @ [p\<lparr>p_interval_index := Val 0\<rparr>])"
  by (simp add: calculate_next_review_def split: sum.splits)

lemma calculate_next_review_returns:
  assumes "p_accuracy p = Absent \<or> is_val (p_accuracy p)"
    and "p_interval_index p = Absent \<or> (\<exists>i. p_interval_index p = Val i \<and> 0 \<le> i \<and> i \<le> 5)"
  shows "\<exists>t. calculate_next_review now r (hs @ [p]) = Inr t"
proof -
  from assms(1) have "\<exists>a. dict_get (p_accuracy p) (1 / 2) = Val a"
  proof
    assume "p_accuracy p = Absent"
    then show ?thesis by (metis dict_get.simps(1))
  next
    assume "is_val (p_accuracy p)"
    then show ?thesis by (cases "p_accuracy p") simp_all
  qed
  then obtain a where a: "dict_get (p_accuracy p) (1 / 2) = Val a" ..
  from assms(2) obtain i where i: "dict_get (p_interval_index p) 0 = Val i" "0 \<le> i" "i \<le> 5"
    by (cases "p_interval_index p") auto
  show ?thesis
    using i(2,3)
    by (simp add: calculate_next_review_def a i(1) next_interval_index_def py_index_def
        spaced_repetition_intervals_def min_def max_def)
qed

lemma get_cards_due_missing:
  assumes "\<forall>c \<in> set cards. naive_or_none (next_review c)"
  shows "\<exists>due. get_cards_due_for_review now cards = Inr due \<and>
     (\<forall>c \<in> set cards. next_review c \<in> {Absent, Null} \<longrightarrow> c \<in> set due)"
  using due_loop_naive [OF assms, of now "[]"]
  by (simp add: get_cards_due_for_review_def)

lemma get_cards_due_aware:
  assumes "\<exists>c \<in> set cards. \<exists>t. next_review c = Val (Aware t)"
  shows "\<exists>e. get_cards_due_for_review now cards = Inl e"
proof -
  have "\<And>acc. \<exists>e. due_loop now cards acc = Inl e"
    using assms
  proof (induction cards)
    case Nil
    then show ?case by simp
  next
    case (Cons c rest)
    show ?case
    proof (cases "\<exists>t. next_review c = Val (Aware t)")
      case True
      then show ?thesis by auto
    next
      case False
      with Cons.prems have "\<exists>c \<in> set rest. \<exists>t. next_review c = Val (Aware t)" by auto
      with Cons.IH have ih: "\<And>acc. \<exists>e. due_loop now rest acc = Inl e" by blast
      show ?thesis
        using ih [of acc] ih [of "acc @ [c]"]
        by (auto simp: Let_def split: sum.splits)
    qed
  qed
  then show ?thesis by (simp add: get_cards_due_for_review_def)
qed

lemma suggest_returns:
  assumes "\<forall>s \<in> set hs. complete_session s"
  shows "\<exists>sg. suggest_optimal_study_time fmean fmedian hs = Inr sg"
proof (cases "hs = []")
  case True
  then show ?thesis by (simp add: suggest_optimal_study_time_def)
next
  case False
  from best_hour_loop_split [OF buckets_mean [OF assms, of fmean], of 9 0] obtain r where
    r: "best_hour_loop fmean (buckets hs) 9 0 = Inr r" by blast
  have tp: "bucket_loop hs [] = Inr (buckets hs)"
    using bucket_loop_complete [OF assms, of "[]"] by (simp add: buckets_def)
  show ?thesis
    using False by (simp add: suggest_optimal_study_time_def tp r durations_of_complete [OF assms]
        np_median_Val)
qed

lemma bucket_loop_missing_accuracy:
  "\<forall>s \<in> set hs. is_val (p_date s) \<Longrightarrow> \<exists>s \<in> set hs. p_accuracy s = Absent \<Longrightarrow>
   bucket_loop hs tp = Inl KeyError"
proof (induction hs arbitrary: tp)
  case Nil
  then show ?case by simp
next
  case (Cons s hs)
  from Cons.prems(1) obtain t where t: "p_date s = Val t"
    by (cases "p_date s") simp_all
  show ?case
  proof (cases "p_accuracy s = Absent")
    case True
    then show ?thesis by (simp add: t)
  next
    case False
    with Cons.prems have "\<exists>s \<in> set hs. p_accuracy s = Absent" by simp
    with Cons have ih: "\<And>tp. bucket_loop hs tp = Inl KeyError" by simp
    from False show ?thesis by (cases "p_accuracy s") (simp_all add: t ih)
  qed
qed

lemma suggest_missing_accuracy:
  assumes "\<forall>s \<in> set hs. is_val (p_date s)" and "\<exists>s \<in> set hs. p_accuracy s = Absent"
  shows "suggest_optimal_study_time fmean fmedian hs = Inl KeyError"
proof -
  from assms(2) have "hs \<noteq> []" by auto
  then show ?thesis
    by (simp add: suggest_optimal_study_time_def bucket_loop_missing_accuracy [OF assms])
qed

text \<open>
  Claim C2, as the code has it.  \<open>calculate_next_review\<close> reads a missing accuracy as
  \<open>0.5\<close> and a missing \<open>interval_index\<close> as \<open>0\<close>, and returns when the accuracy is
  missing or a number and the index is missing or a position of the table.
  \<open>get_cards_due_for_review\<close> returns when the \<open>next_review\<close> of every card is missing,
  \<^verbatim>\<open>None\<close> or a naive ISO timestamp, and then every card without a timestamp (key
  absent or \<^verbatim>\<open>None\<close>) is among the due cards; it raises when a card carries a timestamp
  with a UTC offset.  \<open>suggest_optimal_study_time\<close> substitutes nothing: it returns
  when every entry is complete, and an entry without accuracy, in a history whose
  dates are all well-formed, raises \<open>KeyError\<close>.
\<close>

theorem scheduler_defaults:
  "calculate_next_review now r (hs @ [p\<lparr>p_accuracy := Absent\<rparr>]) =
     calculate_next_review now r (hs @ [p\<lparr>p_accuracy := Val (1 / 2)\<rparr>]) \<and>
   calculate_next_review now r (hs @ [p\<lparr>p_interval_index := Absent\<rparr>]) =
     calculate_next_review now r (hs @ [p\<lparr>p_interval_index := Val 0\<rparr>]) \<and>
   ((p_accuracy p = Absent \<or> is_val (p_accuracy p)) \<and>
    (p_interval_index p = Absent \<or> (\<exists>i. p_interval_index p = Val i \<and> 0 \<le> i \<and> i \<le> 5)) \<longrightarrow>
      (\<exists>t. calculate_next_review now r (hs @ [p]) = Inr t)) \<and>
   ((\<forall>c \<in> set cards. naive_or_none (next_review c)) \<longrightarrow>
      (\<exists>due. get_cards_due_for_review now cards = Inr due \<and>
         (\<forall>c \<in> set cards. next_review c \<in> {Absent, Null} \<longrightarrow> c \<in> set due))) \<and>
   ((\<exists>c \<in> set cards. \<exists>t. next_review c = Val (Aware t)) \<longrightarrow>
      (\<exists>e. get_cards_due_for_review now cards = Inl e)) \<and>
   ((\<forall>s \<in> set hs. complete_session s) \<longrightarrow>
      (\<exists>sg. suggest_optimal_study_time fmean fmedian hs = Inr sg)) \<and>
   ((\<forall>s \<in> set hs. is_val (p_date s)) \<and> (\<exists>s \<in> set hs. p_accuracy s = Absent) \<longrightarrow>
      suggest_optimal_study_time fmean fmedian hs = Inl KeyError)"
proof -
  have 1: "(p_accuracy p = Absent \<or> is_val (p_accuracy p)) \<and>
    (p_interval_index p = Absent \<or> (\<exists>i. p_interval_index p = Val i \<and> 0 \<le> i \<and> i \<le> 5)) \<longrightarrow>
      (\<exists>t. calculate_next_review now r (hs @ [p]) = Inr t)"
    using calculate_next_review_returns [of p now r hs] by blast
  have 2: "(\<forall>c \<in> set cards. naive_or_none (next_review c)) \<longrightarrow>
      (\<exists>due. get_cards_due_for_review now cards = Inr due \<and>
         (\<forall>c \<in> set cards. next_review c \<in> {Absent, Null} \<longrightarrow> c \<in> set due))"
    using get_cards_due_missing [of cards now] by blast
  have 3: "(\<exists>c \<in> set cards. \<exists>t. next_review c = Val (Aware t)) \<longrightarrow>
      (\<exists>e. get_cards_due_for_review now cards = Inl e)"
    using get_cards_due_aware [of cards now] by blast
  have 4: "(\<forall>s \<in> set hs. complete_session s) \<longrightarrow>
      (\<exists>sg. suggest_optimal_study_time fmean fmedian hs = Inr sg)"
    using suggest_returns [of hs fmean fmedian] by blast
  have 5: "(\<forall>s \<in> set hs. is_val (p_date s)) \<and> (\<exists>s \<in> set hs. p_accuracy s = Absent) \<longrightarrow>
      suggest_optimal_study_time fmean fmedian hs = Inl KeyError"
    using suggest_missing_accuracy [of hs fmean fmedian] by blast
  show ?thesis
    by (intro conjI calculate_next_review_missing_accuracy calculate_next_review_missing_index
        1 2 3 4 5)
qed

text \<open>The empty entry and the empty card take the defaults; a card whose timestamp
  has a UTC offset and an entry with a date only are rejected.\<close>

theorem scheduler_defaults_witness:
  "calculate_next_review 0 0 [empty_performance] = Inr (timedelta_days 1) \<and>
   get_cards_due_for_review 0 [empty_card] = Inr [empty_card] \<and>
   get_cards_due_for_review 0 [empty_card\<lparr>next_review := Val (Aware 0)\<rparr>] = Inl TypeError \<and>
   suggest_optimal_study_time exact_mean exact_median [empty_performance\<lparr>p_date := Val (Naive 0)\<rparr>]
     = Inl KeyError"
proof -
  note th3 = scheduler_defaults [of 0 0 "[]" empty_performance
      "[empty_card\<lparr>next_review := Val (Aware 0)\<rparr>]" exact_mean exact_median]
  note th = scheduler_defaults [of 0 0 "[]" empty_performance "[empty_card]"
      exact_mean exact_median]
  note th2 = scheduler_defaults [of 0 0 "[empty_performance\<lparr>p_date := Val (Naive 0)\<rparr>]"
      empty_performance "[empty_card]" exact_mean exact_median]
  have a: "calculate_next_review 0 0 [empty_performance] = Inr (timedelta_days 1)"
    using th by (simp add: empty_performance_def calculate_next_review_def next_interval_index_def
        py_index_def spaced_repetition_intervals_def)
  have b: "get_cards_due_for_review 0 [empty_card] = Inr [empty_card]"
    using th by (simp add: get_cards_due_for_review_def empty_card_def)
  have c: "suggest_optimal_study_time exact_mean exact_median
      [empty_performance\<lparr>p_date := Val (Naive 0)\<rparr>] = Inl KeyError"
    using th2 by (simp add: empty_performance_def)
  have d: "get_cards_due_for_review 0 [empty_card\<lparr>next_review := Val (Aware 0)\<rparr>] = Inl TypeError"
    using th3 by (simp add: get_cards_due_for_review_def empty_card_def)
  from a b c d show ?thesis by simp
qed

text \<open>A one-entry history whose entry has a date and a duration but no accuracy:
  \<^verbatim>\<open>session['accuracy']\<close> raises, before any mean is computed.\<close>

theorem scheduler_defaults_counterexample:
  "suggest_optimal_study_time exact_mean exact_median
     [\<lparr>p_date = Val (Naive 0), p_accuracy = Absent, p_interval_index = Absent,
       p_duration = Val 30\<rparr>]
   = Inl KeyError"
  by (simp add: suggest_optimal_study_time_def)

section \<open>Properties of the personalizer\<close>

subsection \<open>Counting tags\<close>

lemma keys_counter_add:
  "map fst (counter_add x c) = (if x \<in> fst ` set c then map fst c else map fst c @ [x])"
  by (induction c) force+

lemma map_of_counter_add:
  "map_of (counter_add x c) =
     (map_of c)(x \<mapsto> (case map_of c x of None \<Rightarrow> 1 | Some n \<Rightarrow> Suc n))"
  by (induction c) (auto simp: fun_eq_iff)

lemma Counter_snoc: "Counter (xs @ [x]) = counter_add x (Counter xs)"
  by (simp add: Counter_def)

lemma Counter_keys: "set (map fst (Counter xs)) = set xs"
proof (induction xs rule: rev_induct)
  case Nil
  then show ?case by (simp add: Counter_def)
next
  case (snoc x xs)
  have "set (map fst (Counter (xs @ [x]))) = insert x (set (map fst (Counter xs)))"
    unfolding Counter_snoc keys_counter_add by auto
  with snoc show ?case by simp
qed

lemma Counter_distinct: "distinct (map fst (Counter xs))"
proof (induction xs rule: rev_induct)
  case Nil
  then show ?case by (simp add: Counter_def)
next
  case (snoc x xs)
  then show ?case unfolding Counter_snoc keys_counter_add by auto
qed

lemma Counter_map_of:
  "map_of (Counter xs) x = (if x \<in> set xs then Some (count_list xs x) else None)"
proof (induction xs rule: rev_induct)
  case Nil
  then show ?case by (simp add: Counter_def)
next
  case (snoc y xs)
  show ?case
    unfolding Counter_snoc map_of_counter_add
    using snoc by (auto simp: count_list_0_iff)
qed

lemma Counter_count:
  assumes "(k, n) \<in> set (Counter xs)"
  shows "k \<in> set xs \<and> n = count_list xs k"
proof -
  from assms have "map_of (Counter xs) k = Some n"
    using Counter_distinct [of xs] by simp
  then show ?thesis by (simp add: Counter_map_of split: if_splits)
qed

lemma Counter_length: "length (Counter xs) = card (set xs)"
proof -
  have "length (Counter xs) = length (map fst (Counter xs))" by simp
  also have "\<dots> = card (set (map fst (Counter xs)))"
    using Counter_distinct [of xs] by (simp only: distinct_card)
  finally show ?thesis by (simp only: Counter_keys)
qed

lemma most_common_props:
  fixes xs :: "'a list" and n :: nat
  defines "ws \<equiv> map fst (most_common n (Counter xs))"
  shows "distinct ws" and "length ws = min n (card (set xs))" and "set ws \<subseteq> set xs"
    and "\<forall>t \<in> set ws. \<forall>u \<in> set xs - set ws. count_list xs u \<le> count_list xs t"
proof -
  let ?key = "\<lambda>kv :: 'a \<times> nat. - int (snd kv)"
  let ?l = "sort_key ?key (Counter xs)"
  have ws: "ws = map fst (take n ?l)" by (simp add: ws_def most_common_def)
  have dl: "distinct (map fst ?l)"
    using Counter_distinct [of xs] by (simp add: distinct_map)
  have "distinct (take n (map fst ?l))" using dl by (rule distinct_take)
  then show "distinct ws" by (simp add: ws take_map)
  show "length ws = min n (card (set xs))"
    by (simp add: ws Counter_length min.commute)
  have sub: "set (take n ?l) \<subseteq> set (Counter xs)"
    using set_take_subset [of n ?l] by simp
  show "set ws \<subseteq> set xs"
  proof
    fix k assume "k \<in> set ws"
    then obtain c where "(k, c) \<in> set (take n ?l)" by (auto simp: ws)
    with sub have "(k, c) \<in> set (Counter xs)" by blast
    then show "k \<in> set xs" using Counter_count by fast
  qed
  have srt: "sorted (map ?key (take n ?l @ drop n ?l))" by simp
  show "\<forall>t \<in> set ws. \<forall>u \<in> set xs - set ws. count_list xs u \<le> count_list xs t"
  proof (intro ballI)
    fix t u assume t: "t \<in> set ws" and u: "u \<in> set xs - set ws"
    from t obtain c where tc: "(t, c) \<in> set (take n ?l)" by (auto simp: ws)
    with sub have "(t, c) \<in> set (Counter xs)" by blast
    then have c: "c = count_list xs t" using Counter_count by fast
    from u have "u \<in> set (map fst (Counter xs))" by (simp only: Counter_keys) simp
    then obtain d where ud: "(u, d) \<in> set (Counter xs)" by auto
    then have d: "d = count_list xs u" using Counter_count by fast
    have "set ?l = set (take n ?l) \<union> set (drop n ?l)"
      by (metis append_take_drop_id set_append)
    with ud have "(u, d) \<in> set (take n ?l) \<union> set (drop n ?l)" by simp
    moreover from u have "(u, d) \<notin> set (take n ?l)" by (force simp: ws)
    ultimately have "(u, d) \<in> set (drop n ?l)" by blast
    with srt tc have "?key (t, c) \<le> ?key (u, d)"
      unfolding map_append sorted_append by force
    then show "count_list xs u \<le> count_list xs t" by (simp add: c d)
  qed
qed

subsection \<open>Updating a profile\<close>

lemma update_user_profile_profile:
  "snd (update_user_profile now user_profiles uid sd) uid =
     Some (snd (update_profile now (fst (get_user_profile user_profiles uid)) sd))"
  by (simp add: update_user_profile_def split: prod.splits)

lemma update_user_profile_raised:
  "fst (update_user_profile now user_profiles uid sd) =
     fst (update_profile now (fst (get_user_profile user_profiles uid)) sd)"
  by (simp add: update_user_profile_def split: prod.splits)

lemma update_profile_weak:
  "weak_areas (snd (update_profile now profile sd)) =
     map fst (most_common 5 (Counter (weak_topics (responses_of sd))))"
  by (simp add: update_profile_def Let_def split: sum.splits)

lemma update_profile_no_responses:
  assumes "responses_of sd = []"
  shows "update_profile now profile sd =
     (None, profile\<lparr>performance_history :=
               drop (length (performance_history profile) + 1 - 30)
                 (performance_history profile @
                    [(now, sd_mode sd, 0, 0, case sd_study_time sd of None \<Rightarrow> 0 | Some t \<Rightarrow> t)]),
             weak_areas := []\<rparr>)"
  by (simp add: update_profile_def assms weak_topics_def Counter_def most_common_def)

lemma update_profile_history:
  assumes "fst (update_profile now profile sd) = None"
  shows "\<exists>entry. performance_history (snd (update_profile now profile sd)) =
     drop (length (performance_history profile) + 1 - 30) (performance_history profile @ [entry])"
  using assms by (auto simp: update_profile_def Let_def split: sum.splits if_splits)

text \<open>
  Claim C10.  After every call of \<open>update_user_profile\<close>, whether it returns or raises,
  the weak areas of the profile are computed from the tags of the incorrect responses
  of this session alone: they are distinct tags among them, five of them or all of
  them if there are fewer, and no tag left out occurs more often than a tag listed.
  A session without responses raises nothing, records the accuracy 0 and leaves the
  weak areas empty.
\<close>

theorem update_user_profile_weak_areas:
  "\<exists>p'. snd (update_user_profile now user_profiles uid sd) uid = Some p' \<and>
     weak_areas p' = map fst (most_common 5 (Counter (weak_topics (responses_of sd)))) \<and>
     distinct (weak_areas p') \<and>
     length (weak_areas p') = min 5 (card (set (weak_topics (responses_of sd)))) \<and>
     set (weak_areas p') \<subseteq> set (weak_topics (responses_of sd)) \<and>
     (\<forall>t \<in> set (weak_areas p'). \<forall>u \<in> set (weak_topics (responses_of sd)) - set (weak_areas p').
        count_list (weak_topics (responses_of sd)) u \<le> count_list (weak_topics (responses_of sd)) t) \<and>
     (responses_of sd = [] \<longrightarrow>
        fst (update_user_profile now user_profiles uid sd) = None \<and> weak_areas p' = [] \<and>
        last (performance_history p') =
          (now, sd_mode sd, 0, 0, case sd_study_time sd of None \<Rightarrow> 0 | Some t \<Rightarrow> t))"
proof -
  let ?p = "snd (update_profile now (fst (get_user_profile user_profiles uid)) sd)"
  let ?xs = "weak_topics (responses_of sd)"
  have w: "weak_areas ?p = map fst (most_common 5 (Counter ?xs))"
    by (rule update_profile_weak)
  note mc = most_common_props [of 5 ?xs, folded w]
  have z: "responses_of sd = [] \<longrightarrow>
        fst (update_user_profile now user_profiles uid sd) = None \<and> weak_areas ?p = [] \<and>
        last (performance_history ?p) =
          (now, sd_mode sd, 0, 0, case sd_study_time sd of None \<Rightarrow> 0 | Some t \<Rightarrow> t)"
    by (simp add: update_user_profile_raised update_profile_no_responses last_drop)
  show ?thesis
    using update_user_profile_profile [of now user_profiles uid sd] w mc z by blast
qed

text \<open>Four responses, three of them incorrect, for a user whose profile lists an old
  weak area: the five most frequent tags of the three replace it.\<close>

theorem update_user_profile_weak_areas_witness:
  "\<exists>p'. snd (update_user_profile 7
       [''u'' \<mapsto> \<lparr>user_id = ''u'', preferred_modes = [CHALLENGE],
           preferred_styles = [DEFINITION_BASED], difficulty_preference = ''medium'',
           study_time_preference = 30, performance_history = [],
           learning_goals = [], weak_areas = [''old'']\<rparr>]
       ''u''
       \<lparr>sd_mode = NoMode,
         sd_responses = Some
           [\<lparr>r_correct = Val False, r_card = Some (empty_card\<lparr>tags := Some [''a'', ''b'']\<rparr>)\<rparr>,
            \<lparr>r_correct = Val True, r_card = Some (empty_card\<lparr>tags := Some [''z'']\<rparr>)\<rparr>,
            \<lparr>r_correct = Absent, r_card = Some (empty_card\<lparr>tags := Some [''b'', ''c'']\<rparr>)\<rparr>,
            \<lparr>r_correct = Val False,
              r_card = Some (empty_card\<lparr>tags := Some [''c'', ''d'', ''e'', ''f'']\<rparr>)\<rparr>],
         sd_study_time = None\<rparr>) ''u'' = Some p' \<and>
     weak_areas p' = [''b'', ''c'', ''a'', ''d'', ''e'']"
proof -
  let ?sd = "\<lparr>sd_mode = NoMode,
         sd_responses = Some
           [\<lparr>r_correct = Val False, r_card = Some (empty_card\<lparr>tags := Some [''a'', ''b'']\<rparr>)\<rparr>,
            \<lparr>r_correct = Val True, r_card = Some (empty_card\<lparr>tags := Some [''z'']\<rparr>)\<rparr>,
            \<lparr>r_correct = Absent, r_card = Some (empty_card\<lparr>tags := Some [''b'', ''c'']\<rparr>)\<rparr>,
            \<lparr>r_correct = Val False,
              r_card = Some (empty_card\<lparr>tags := Some [''c'', ''d'', ''e'', ''f'']\<rparr>)\<rparr>],
         sd_study_time = None\<rparr>"
  have t: "weak_topics (responses_of ?sd) = [''a'', ''b'', ''b'', ''c'', ''c'', ''d'', ''e'', ''f'']"
    by (simp add: weak_topics_def responses_of_def is_correct_def card_tags_def empty_card_def)
  have c: "map fst (most_common 5 (Counter [''a'', ''b'', ''b'', ''c'', ''c'', ''d'', ''e'', ''f'']))
      = [''b'', ''c'', ''a'', ''d'', ''e'']"
    by (simp add: Counter_def most_common_def)
  from update_user_profile_weak_areas [of 7 _ "''u''" ?sd]
  show ?thesis unfolding t c by blast
qed

subsection \<open>Preferred modes\<close>

text \<open>
  Claim C3 at a session that names its mode by the string \<^verbatim>\<open>'challenge'\<close>, with all
  answers correct, for a profile that prefers \<open>CHALLENGE\<close> already: the test
  \<^verbatim>\<open>session_data.get('mode') not in profile.preferred_modes\<close> compares the string with
  the members, finds it absent, and the member is appended a second time.
\<close>

theorem update_profile_duplicate_mode:
  "preferred_modes (snd (update_profile 0
       \<lparr>user_id = ''u'', preferred_modes = [BASIC_EDUCATIONAL, CHALLENGE],
         preferred_styles = [DEFINITION_BASED], difficulty_preference = ''medium'',
         study_time_preference = 30, performance_history = [],
         learning_goals = [], weak_areas = []\<rparr>
       \<lparr>sd_mode = ModeName ''challenge'',
         sd_responses = Some [\<lparr>r_correct = Val True, r_card = None\<rparr>],
         sd_study_time = None\<rparr>))
   = [BASIC_EDUCATIONAL, CHALLENGE, CHALLENGE]"
  by (simp add: update_profile_def responses_of_def is_correct_def Let_def)

text \<open>When the session holds the member itself, the test works: the member is
  appended only when it is absent and the accuracy exceeds 0.8.  The scenario of the
  specification, 17 correct answers of 20 in mode \<^verbatim>\<open>'challenge'\<close> for a profile that
  prefers \<open>BASIC_EDUCATIONAL\<close> only, appends \<open>CHALLENGE\<close>.\<close>

lemma update_profile_member_mode:
  assumes "sd_mode sd = ModeMember m"
  shows "fst (update_profile now profile sd) = None"
    and "preferred_modes (snd (update_profile now profile sd)) =
      (if accuracy_of (responses_of sd) > 4 / 5 \<and> m \<notin> set (preferred_modes profile)
       then preferred_modes profile @ [m] else preferred_modes profile)"
  using assms by (auto simp: update_profile_def accuracy_of_def Let_def)

lemma update_profile_scenario:
  assumes "length rs = 20" and "length (filter is_correct rs) = 17"
  shows "preferred_modes (snd (update_profile now
       (profile\<lparr>preferred_modes := [BASIC_EDUCATIONAL]\<rparr>)
       \<lparr>sd_mode = ModeName ''challenge'', sd_responses = Some rs, sd_study_time = st\<rparr>))
     = [BASIC_EDUCATIONAL, CHALLENGE]"
  using assms by (auto simp: update_profile_def responses_of_def Let_def)

text \<open>When the session names the mode by its string, the member is appended whenever
  the accuracy exceeds 0.8, whether the profile lists it or not.\<close>

lemma StudyMode_of_name: "StudyMode_of (ModeName (mode_name m)) = Inr m"
  by (cases m) simp_all

lemma update_profile_name_mode:
  assumes "sd_mode sd = ModeName (mode_name m)" and "accuracy_of (responses_of sd) > 4 / 5"
  shows "preferred_modes (snd (update_profile now profile sd)) = preferred_modes profile @ [m]"
proof -
  have "\<not> mode_in (sd_mode sd) (preferred_modes profile)"
    and "StudyMode_of (sd_mode sd) = Inr m"
    by (simp_all only: assms(1) StudyMode_of_name mode_in.simps not_False_eq_True)
  moreover from assms(2) have "responses_of sd \<noteq> []"
    and "of_nat (length (filter is_correct (responses_of sd))) / of_nat (length (responses_of sd))
      > (4 / 5 :: rat)"
    by (auto simp: accuracy_of_def split: if_splits)
  ultimately show ?thesis
    by (simp add: update_profile_def Let_def)
qed

subsection \<open>The length of the history\<close>

text \<open>
  Claim C6 at a profile with 30 entries and a session without a mode whose answers are
  all correct: \<^verbatim>\<open>StudyMode(None)\<close> raises after the entry has been appended and before
  the history is cut, and the profile is left with 31 entries.
\<close>

theorem update_profile_history_overflow:
  "fst (update_profile 0
       \<lparr>user_id = ''u'', preferred_modes = [BASIC_EDUCATIONAL],
         preferred_styles = [DEFINITION_BASED], difficulty_preference = ''medium'',
         study_time_preference = 30,
         performance_history = replicate 30 (0, ModeName ''challenge'', 1, 1, 0),
         learning_goals = [], weak_areas = []\<rparr>
       \<lparr>sd_mode = NoMode,
         sd_responses = Some [\<lparr>r_correct = Val True, r_card = None\<rparr>],
         sd_study_time = None\<rparr>) = Some ValueError \<and>
   length (performance_history (snd (update_profile 0
       \<lparr>user_id = ''u'', preferred_modes = [BASIC_EDUCATIONAL],
         preferred_styles = [DEFINITION_BASED], difficulty_preference = ''medium'',
         study_time_preference = 30,
         performance_history = replicate 30 (0, ModeName ''challenge'', 1, 1, 0),
         learning_goals = [], weak_areas = []\<rparr>
       \<lparr>sd_mode = NoMode,
         sd_responses = Some [\<lparr>r_correct = Val True, r_card = None\<rparr>],
         sd_study_time = None\<rparr>))) = 31"
  by (simp add: update_profile_def responses_of_def is_correct_def Let_def)

text \<open>A call that returns leaves the last 30 entries of the old history followed by
  the new entry.\<close>

lemma StudyMode_of_error: "StudyMode_of v = Inl e \<Longrightarrow> e = ValueError"
  by (cases v) (auto split: list.splits)

lemma update_profile_raises:
  assumes "fst (update_profile now profile sd) = Some e"
  shows "e = ValueError"
    and "length (performance_history (snd (update_profile now profile sd))) =
      Suc (length (performance_history profile))"
  using assms
  by (auto simp: update_profile_def Let_def split: if_splits sum.splits
      dest: StudyMode_of_error)

lemma update_profile_history_bound:
  assumes "fst (update_profile now profile sd) = None"
  shows "length (performance_history (snd (update_profile now profile sd))) \<le> 30"
proof -
  from update_profile_history [OF assms] obtain entry where
    "performance_history (snd (update_profile now profile sd)) =
       drop (length (performance_history profile) + 1 - 30) (performance_history profile @ [entry])"
    by blast
  then show ?thesis by simp
qed

subsection \<open>Fast review\<close>

lemma simplify_front:
  "c_front (simplify_for_fast_review c) =
     (case c_front c of
        None \<Rightarrow> None
      | Some f \<Rightarrow> if length f > 100 then Some (take 97 f @ ''...'') else Some f)"
  by (simp add: simplify_for_fast_review_def Let_def split: option.splits)

lemma simplify_back:
  "c_back (simplify_for_fast_review c) =
     (case c_back c of
        None \<Rightarrow> None
      | Some b \<Rightarrow> if length b > 150 then Some (take 147 b @ ''...'') else Some b)"
  by (simp add: simplify_for_fast_review_def Let_def split: option.splits)

lemma personalize_card_fast_review:
  "c_front (personalize_card shuffle FAST_REVIEW profile c) = c_front (simplify_for_fast_review c) \<and>
   c_back (personalize_card shuffle FAST_REVIEW profile c) = c_back (simplify_for_fast_review c)"
  by (simp add: personalize_card_def Let_def)

text \<open>
  Claim C8.  In fast-review mode a front of more than 100 characters is replaced by
  its first 97 characters followed by \<^verbatim>\<open>...\<close>, 100 characters in all, and a back of
  more than 150 characters by its first 147 characters followed by \<^verbatim>\<open>...\<close>, 150 in
  all; a front of at most 100 and a back of at most 150 characters, or a missing one,
  are left as they are.  The card of a fast-review session has the front and the back
  that \<open>simplify_for_fast_review\<close> leaves.
\<close>

theorem simplify_for_fast_review_truncates:
  "(\<forall>f. c_front c = Some f \<and> length f > 100 \<longrightarrow>
      c_front (simplify_for_fast_review c) = Some (take 97 f @ ''...'') \<and>
      length (take 97 f @ ''...'') = 100) \<and>
   (\<forall>b. c_back c = Some b \<and> length b > 150 \<longrightarrow>
      c_back (simplify_for_fast_review c) = Some (take 147 b @ ''...'') \<and>
      length (take 147 b @ ''...'') = 150) \<and>
   ((\<forall>f. c_front c = Some f \<longrightarrow> length f \<le> 100) \<longrightarrow>
      c_front (simplify_for_fast_review c) = c_front c) \<and>
   ((\<forall>b. c_back c = Some b \<longrightarrow> length b \<le> 150) \<longrightarrow>
      c_back (simplify_for_fast_review c) = c_back c) \<and>
   c_front (personalize_card shuffle FAST_REVIEW profile c) = c_front (simplify_for_fast_review c) \<and>
   c_back (personalize_card shuffle FAST_REVIEW profile c) = c_back (simplify_for_fast_review c)"
proof -
  have a: "\<forall>f. c_front c = Some f \<and> length f > 100 \<longrightarrow>
      c_front (simplify_for_fast_review c) = Some (take 97 f @ ''...'') \<and>
      length (take 97 f @ ''...'') = 100"
    by (simp add: simplify_front)
  have b: "\<forall>b. c_back c = Some b \<and> length b > 150 \<longrightarrow>
      c_back (simplify_for_fast_review c) = Some (take 147 b @ ''...'') \<and>
      length (take 147 b @ ''...'') = 150"
    by (simp add: simplify_back)
  have c: "(\<forall>f. c_front c = Some f \<longrightarrow> length f \<le> 100) \<longrightarrow>
      c_front (simplify_for_fast_review c) = c_front c"
    by (cases "c_front c") (simp_all add: simplify_front)
  have d: "(\<forall>b. c_back c = Some b \<longrightarrow> length b \<le> 150) \<longrightarrow>
      c_back (simplify_for_fast_review c) = c_back c"
    by (cases "c_back c") (simp_all add: simplify_back)
  from a b c d personalize_card_fast_review [of shuffle profile c] show ?thesis by blast
qed

text \<open>A front of 150 and a back of 200 characters are cut to 100 and 150; a short
  front is kept.\<close>

theorem simplify_for_fast_review_truncates_witness:
  "c_front (simplify_for_fast_review
      (empty_card\<lparr>c_front := Some (replicate 150 CHR ''q''), c_back := Some (replicate 200 CHR ''a'')\<rparr>))
     = Some (replicate 97 CHR ''q'' @ ''...'') \<and>
   c_back (simplify_for_fast_review
      (empty_card\<lparr>c_front := Some (replicate 150 CHR ''q''), c_back := Some (replicate 200 CHR ''a'')\<rparr>))
     = Some (replicate 147 CHR ''a'' @ ''...'') \<and>
   length (replicate 97 CHR ''q'' @ ''...'') = 100 \<and>
   length (replicate 147 CHR ''a'' @ ''...'') = 150 \<and>
   c_front (simplify_for_fast_review (empty_card\<lparr>c_front := Some ''short''\<rparr>)) = Some ''short''"
proof -
  let ?c = "empty_card\<lparr>c_front := Some (replicate 150 CHR ''q''), c_back := Some (replicate 200 CHR ''a'')\<rparr>"
  note t = simplify_for_fast_review_truncates [of ?c]
  note s = simplify_for_fast_review_truncates [of "empty_card\<lparr>c_front := Some ''short''\<rparr>"]
  have 1: "c_front (simplify_for_fast_review ?c) = Some (replicate 97 CHR ''q'' @ ''...'')"
    using t by simp
  have 2: "c_back (simplify_for_fast_review ?c) = Some (replicate 147 CHR ''a'' @ ''...'')"
    using t by simp
  have 3: "c_front (simplify_for_fast_review (empty_card\<lparr>c_front := Some ''short''\<rparr>)) = Some ''short''"
    using s by simp
  from 1 2 3 show ?thesis by simp
qed

subsection \<open>The spaced-repetition order\<close>

lemma spaced_priority_ok:
  assumes "naive_or_none (last_reviewed c)"
  shows "spaced_priority now c = Inr (review_age now c)"
proof (cases "last_reviewed c")
  case (Val ts)
  with assms obtain t where "ts = Naive t" by (cases ts) simp_all
  with Val show ?thesis by (simp add: spaced_priority_def review_age_def)
qed (use assms in \<open>simp_all add: spaced_priority_def review_age_def\<close>)

lemma review_age_priority [simp]: "review_age now (c\<lparr>priority := p\<rparr>) = review_age now c"
  by (simp add: review_age_def)

lemma dict_at_update:
  "a < length h \<Longrightarrow> dict_at (h[a := Dict c]) b = (if b = a then Some c else dict_at h b)"
  by (simp add: dict_at_def)

lemma dict_at_length: "dict_at h a = Some c \<Longrightarrow> a < length h"
  by (simp add: dict_at_def split: if_splits)

lemma priority_loop_ok:
  assumes "\<forall>a \<in> set refs. \<exists>c. dict_at h a = Some c \<and> naive_or_none (last_reviewed c)"
  shows "\<exists>h'. priority_loop now refs h = (None, h') \<and> length h' = length h \<and>
     (\<forall>a. a \<notin> set refs \<longrightarrow> h' ! a = h ! a) \<and>
     (\<forall>a \<in> set refs. \<forall>c. dict_at h a = Some c \<longrightarrow>
        dict_at h' a = Some (c\<lparr>priority := Some (review_age now c)\<rparr>))"
  using assms
proof (induction refs arbitrary: h)
  case Nil
  then show ?case by simp
next
  case (Cons a rest)
  from Cons.prems obtain c where c: "dict_at h a = Some c" "naive_or_none (last_reviewed c)"
    by auto
  have alen: "a < length h" using c(1) by (rule dict_at_length)
  let ?c' = "c\<lparr>priority := Some (review_age now c)\<rparr>"
  let ?h1 = "h[a := Dict ?c']"
  have step: "priority_loop now (a # rest) h = priority_loop now rest ?h1"
    by (simp add: c spaced_priority_ok)
  have pre: "\<forall>b \<in> set rest. \<exists>cb. dict_at ?h1 b = Some cb \<and> naive_or_none (last_reviewed cb)"
  proof
    fix b assume "b \<in> set rest"
    with Cons.prems obtain cb where "dict_at h b = Some cb" "naive_or_none (last_reviewed cb)"
      by auto
    then show "\<exists>cb. dict_at ?h1 b = Some cb \<and> naive_or_none (last_reviewed cb)"
      using c(2) alen by (cases "b = a") (simp_all add: dict_at_update)
  qed
  from Cons.IH [OF pre] obtain h' where
    run: "priority_loop now rest ?h1 = (None, h')" and len: "length h' = length ?h1"
    and other: "\<forall>b. b \<notin> set rest \<longrightarrow> h' ! b = ?h1 ! b"
    and upd: "\<forall>b \<in> set rest. \<forall>cb. dict_at ?h1 b = Some cb \<longrightarrow>
        dict_at h' b = Some (cb\<lparr>priority := Some (review_age now cb)\<rparr>)"
    by blast
  have 1: "\<forall>b. b \<notin> set (a # rest) \<longrightarrow> h' ! b = h ! b"
    using other by simp
  have 2: "\<forall>b \<in> set (a # rest). \<forall>cb. dict_at h b = Some cb \<longrightarrow>
        dict_at h' b = Some (cb\<lparr>priority := Some (review_age now cb)\<rparr>)"
  proof (intro ballI allI impI)
    fix b cb assume b: "b \<in> set (a # rest)" and cb: "dict_at h b = Some cb"
    show "dict_at h' b = Some (cb\<lparr>priority := Some (review_age now cb)\<rparr>)"
    proof (cases "b = a")
      case True
      with cb c(1) have [simp]: "cb = c" by simp
      have d1: "dict_at ?h1 a = Some ?c'" using alen by (simp add: dict_at_update)
      show ?thesis
      proof (cases "a \<in> set rest")
        case True
        with upd d1 have "dict_at h' a = Some (?c'\<lparr>priority := Some (review_age now ?c')\<rparr>)"
          by blast
        then show ?thesis using \<open>b = a\<close> by simp
      next
        case False
        with other have "h' ! a = ?h1 ! a" by simp
        then show ?thesis using \<open>b = a\<close> alen len by (simp add: dict_at_def)
      qed
    next
      case False
      with b have "b \<in> set rest" by simp
      moreover have "dict_at ?h1 b = Some cb" using False cb alen by (simp add: dict_at_update)
      ultimately show ?thesis using upd by blast
    qed
  qed
  show ?case unfolding step using run len 1 2 by simp
qed

lemma insort_key_cong_set:
  "f x = g x \<Longrightarrow> \<forall>a \<in> set ys. f a = g a \<Longrightarrow> insort_key f x ys = insort_key g x ys"
  by (induction ys) simp_all

lemma sort_key_cong_set:
  "\<forall>a \<in> set l. f a = g a \<Longrightarrow> sort_key f l = sort_key g l"
proof (induction l)
  case Nil
  then show ?case by simp
next
  case (Cons x l)
  then have ih: "sort_key f l = sort_key g l" by simp
  have "f x = g x" using Cons.prems by simp
  moreover have "\<forall>a \<in> set (sort_key g l). f a = g a" using Cons.prems by simp
  ultimately have "insort_key f x (sort_key g l) = insort_key g x (sort_key g l)"
    by (rule insort_key_cong_set)
  then show ?case by (simp only: sort_key_simps ih)
qed

lemma sorted_wrt_descending:
  "sorted_wrt (\<lambda>a b. (k b :: int) \<le> k a) (sort_key (\<lambda>a. - k a) l)"
proof -
  have "sorted (map (\<lambda>a. - k a) (sort_key (\<lambda>a. - k a) l))" by (rule sorted_sort_key)
  then show ?thesis by (simp add: sorted_map)
qed

text \<open>
  The ordering on a list of cards whose \<open>last_reviewed\<close> is missing, \<^verbatim>\<open>None\<close> or a
  naive ISO timestamp: it returns, writes into each card its priority, the days since
  its last review or 999 for a card never reviewed, and leaves the list sorted by
  descending priority, cards of equal priority in their former order.
\<close>

lemma apply_spaced_repetition_order_run:
  assumes l: "list_at h cards_ref = Some l"
    and cards: "\<forall>a \<in> set l. \<exists>c. dict_at h a = Some c \<and> naive_or_none (last_reviewed c)"
  shows "\<exists>h'. apply_spaced_repetition_order now cards_ref h = (None, h') \<and>
     list_at h' cards_ref = Some (sort_key (\<lambda>a. - key_at (review_age now) h a) l) \<and>
     sorted_wrt (\<lambda>a b. key_at (review_age now) h b \<le> key_at (review_age now) h a)
       (sort_key (\<lambda>a. - key_at (review_age now) h a) l) \<and>
     (\<forall>k. filter (\<lambda>a. key_at (review_age now) h a = k)
            (sort_key (\<lambda>a. - key_at (review_age now) h a) l) =
          filter (\<lambda>a. key_at (review_age now) h a = k) l) \<and>
     (\<forall>a \<in> set l. \<forall>c. dict_at h a = Some c \<longrightarrow>
        dict_at h' a = Some (c\<lparr>priority := Some (review_age now c)\<rparr>))"
proof -
  from priority_loop_ok [OF cards, of now] obtain h1 where
    run: "priority_loop now l h = (None, h1)" and len: "length h1 = length h"
    and other: "\<forall>a. a \<notin> set l \<longrightarrow> h1 ! a = h ! a"
    and upd: "\<forall>a \<in> set l. \<forall>c. dict_at h a = Some c \<longrightarrow>
        dict_at h1 a = Some (c\<lparr>priority := Some (review_age now c)\<rparr>)"
    by blast
  have rlen: "cards_ref < length h" using l by (simp add: list_at_def split: if_splits)
  have notin: "cards_ref \<notin> set l"
  proof
    assume "cards_ref \<in> set l"
    with cards obtain c where "dict_at h cards_ref = Some c" by auto
    with l show False by (simp add: dict_at_def list_at_def split: if_splits obj.splits)
  qed
  have keys: "\<forall>a \<in> set l. - key_at priority_key h1 a = - key_at (review_age now) h a"
  proof
    fix a assume a: "a \<in> set l"
    with cards obtain c where c: "dict_at h a = Some c" by auto
    with upd a have "dict_at h1 a = Some (c\<lparr>priority := Some (review_age now c)\<rparr>)" by blast
    then show "- key_at priority_key h1 a = - key_at (review_age now) h a"
      by (simp add: key_at_def c priority_key_def)
  qed
  let ?s = "sort_key (\<lambda>a. - key_at (review_age now) h a) l"
  let ?h' = "h1[cards_ref := PyList ?s]"
  have res: "apply_spaced_repetition_order now cards_ref h = (None, ?h')"
    by (simp add: apply_spaced_repetition_order_def l run sort_key_cong_set [OF keys])
  have la: "list_at ?h' cards_ref = Some ?s"
    using rlen len by (simp add: list_at_def)
  have da: "\<forall>a \<in> set l. \<forall>c. dict_at h a = Some c \<longrightarrow>
        dict_at ?h' a = Some (c\<lparr>priority := Some (review_age now c)\<rparr>)"
  proof (intro ballI allI impI)
    fix a c assume a: "a \<in> set l" and c: "dict_at h a = Some c"
    from a notin have "a \<noteq> cards_ref" by auto
    then have "dict_at ?h' a = dict_at h1 a" by (simp add: dict_at_def)
    with upd a c show "dict_at ?h' a = Some (c\<lparr>priority := Some (review_age now c)\<rparr>)"
      by simp
  qed
  have st: "\<forall>k. filter (\<lambda>a. key_at (review_age now) h a = k) ?s =
      filter (\<lambda>a. key_at (review_age now) h a = k) l"
  proof
    fix k
    show "filter (\<lambda>a. key_at (review_age now) h a = k) ?s =
      filter (\<lambda>a. key_at (review_age now) h a = k) l"
      using sort_key_stable [of "\<lambda>a. - key_at (review_age now) h a" "- k" l] by simp
  qed
  from res la da st sorted_wrt_descending [of "key_at (review_age now) h" l]
  show ?thesis by blast
qed

subsection \<open>What a session leaves unchanged\<close>

lemma take_snoc_frame: "n \<le> length h \<Longrightarrow> take n (h @ [x]) = take n h"
  by simp

lemma personalize_loop_frame:
  assumes "n \<le> pl" and "pl < length h" and "list_at h pl = Some l0" and "\<forall>a \<in> set l0. n < a"
  shows "take n (snd (personalize_loop shuffle mode profile pl refs h)) = take n h \<and>
     length h \<le> length (snd (personalize_loop shuffle mode profile pl refs h)) \<and>
     (\<exists>l'. list_at (snd (personalize_loop shuffle mode profile pl refs h)) pl = Some l' \<and>
            (\<forall>a \<in> set l'. n < a))"
  using assms
proof (induction refs arbitrary: h l0)
  case Nil
  then show ?case by simp
next
  case (Cons r rest)
  show ?case
  proof (cases "dict_at h r")
    case None
    with Cons.prems show ?thesis by simp
  next
    case (Some c)
    let ?a = "length h"
    let ?h2 = "h @ [Dict (personalize_card shuffle mode profile c)]"
    let ?h3 = "?h2[pl := PyList (l0 @ [?a])]"
    have l2: "list_at ?h2 pl = Some l0"
      using Cons.prems(2,3) by (simp add: list_at_def nth_append)
    have step: "personalize_loop shuffle mode profile pl (r # rest) h =
        personalize_loop shuffle mode profile pl rest ?h3"
      by (simp add: Some l2 Let_def)
    have len: "length ?h3 = Suc (length h)" by simp
    have l3: "list_at ?h3 pl = Some (l0 @ [?a])"
      using Cons.prems(2) by (simp add: list_at_def)
    have fresh: "\<forall>a \<in> set (l0 @ [?a]). n < a"
      using Cons.prems(1,2,4) by auto
    have tk: "take n ?h3 = take n h"
      using Cons.prems(1,2) by simp
    from Cons.IH [of ?h3 "l0 @ [?a]", OF Cons.prems(1) _ l3 fresh]
    have ih: "take n (snd (personalize_loop shuffle mode profile pl rest ?h3)) = take n ?h3 \<and>
     length ?h3 \<le> length (snd (personalize_loop shuffle mode profile pl rest ?h3)) \<and>
     (\<exists>l'. list_at (snd (personalize_loop shuffle mode profile pl rest ?h3)) pl = Some l' \<and>
            (\<forall>a \<in> set l'. n < a))"
      using Cons.prems(2) by simp
    show ?thesis unfolding step using ih tk len by simp
  qed
qed

lemma priority_loop_frame:
  "\<forall>a \<in> set refs. n \<le> a \<Longrightarrow>
   take n (snd (priority_loop now refs h)) = take n h \<and>
   length (snd (priority_loop now refs h)) = length h"
proof (induction refs arbitrary: h)
  case Nil
  then show ?case by simp
next
  case (Cons a rest)
  then have ih: "\<And>h. take n (snd (priority_loop now rest h)) = take n h \<and>
     length (snd (priority_loop now rest h)) = length h" by simp
  from Cons.prems have "n \<le> a" by simp
  then show ?case
    by (simp add: ih split: option.splits sum.splits)
qed

lemma apply_spaced_repetition_order_frame:
  assumes "n \<le> pl" and "list_at h pl = Some l" and "\<forall>a \<in> set l. n \<le> a"
  shows "take n (snd (apply_spaced_repetition_order now pl h)) = take n h"
proof (cases "priority_loop now l h")
  case (Pair e h1)
  with priority_loop_frame [of l n now h] assms(3)
  have "take n h1 = take n h" by simp
  with Pair assms(1,2) show ?thesis
    by (cases e) (simp_all add: apply_spaced_repetition_order_def)
qed

lemma apply_difficulty_progression_frame:
  assumes "n \<le> pl"
  shows "take n (snd (apply_difficulty_progression pl h)) = take n h"
  using assms by (simp add: apply_difficulty_progression_def split: option.splits)

lemma personalize_cards_frame:
  "take (length h) (snd (personalize_cards now shuffle cards_ref mode profile h)) = h"
proof -
  let ?n = "length h"
  let ?h0 = "h @ [PyList []]"
  show ?thesis
  proof (cases "list_at ?h0 cards_ref")
    case None
    then show ?thesis by (simp add: personalize_cards_def Let_def)
  next
    case (Some l)
    let ?r = "personalize_loop shuffle mode profile ?n l ?h0"
    have "list_at ?h0 ?n = Some []" by (simp add: list_at_def)
    from personalize_loop_frame [of ?n ?n ?h0 "[]" shuffle mode profile l, OF _ _ this]
    obtain l' where
      tk: "take ?n (snd ?r) = h" and l': "list_at (snd ?r) ?n = Some l'" "\<forall>a \<in> set l'. ?n < a"
      by auto
    from l'(2) have le: "\<forall>a \<in> set l'. ?n \<le> a" by auto
    have sp: "take ?n (snd (apply_spaced_repetition_order now ?n (snd ?r))) = h"
      using apply_spaced_repetition_order_frame [of ?n ?n "snd ?r" l' now, OF _ l'(1) le] tk
      by simp
    have df: "take ?n (snd (apply_difficulty_progression ?n (snd ?r))) = h"
      using apply_difficulty_progression_frame [of ?n ?n "snd ?r"] tk by simp
    show ?thesis
      using tk sp df
      by (cases ?r; cases "apply_spaced_repetition_order now ?n (snd ?r)";
          cases "apply_difficulty_progression ?n (snd ?r)")
        (auto simp: personalize_cards_def Let_def Some split: option.splits)
  qed
qed

lemma apply_spaced_repetition_order_list:
  assumes "list_at h pl = Some l" and "pl \<notin> set l"
    and "fst (apply_spaced_repetition_order now pl h) = None"
  shows "\<exists>l2. list_at (snd (apply_spaced_repetition_order now pl h)) pl = Some l2 \<and> set l2 = set l"
proof (cases "priority_loop now l h")
  case (Pair e h1)
  from assms(1) have "pl < length h" by (simp add: list_at_def split: if_splits)
  moreover from priority_loop_frame [of l 0 now h] Pair have "length h1 = length h" by simp
  ultimately have "pl < length h1" by simp
  with Pair assms show ?thesis
    by (cases e) (simp_all add: apply_spaced_repetition_order_def list_at_def)
qed

lemma apply_difficulty_progression_list:
  assumes "list_at h pl = Some l"
  shows "fst (apply_difficulty_progression pl h) = None \<and>
    (\<exists>l2. list_at (snd (apply_difficulty_progression pl h)) pl = Some l2 \<and> set l2 = set l)"
proof -
  from assms have "pl < length h" by (simp add: list_at_def split: if_splits)
  with assms show ?thesis
    by (simp add: apply_difficulty_progression_def list_at_def)
qed

lemma personalize_cards_unfold:
  assumes a1: "list_at (h @ [PyList []]) cards_ref = Some l"
    and a2: "personalize_loop shuffle mode profile (length h) l (h @ [PyList []]) = (e, h1)"
  shows "personalize_cards now shuffle cards_ref mode profile h =
     (case e of
        Some x \<Rightarrow> (Inl x, h1)
      | None \<Rightarrow>
          if mode = SPACED_REPETITION then
            (case apply_spaced_repetition_order now (length h) h1 of
               (Some x, h2) \<Rightarrow> (Inl x, h2)
             | (None, h2) \<Rightarrow> (Inr (length h), h2))
          else if mode = CHALLENGE then
            (case apply_difficulty_progression (length h) h1 of
               (Some x, h2) \<Rightarrow> (Inl x, h2)
             | (None, h2) \<Rightarrow> (Inr (length h), h2))
          else (Inr (length h), h1))"
proof -
  have "personalize_cards now shuffle cards_ref mode profile h =
     (case personalize_loop shuffle mode profile (length h) l (h @ [PyList []]) of
               (Some e, h1) \<Rightarrow> (Inl e, h1)
             | (None, h1) \<Rightarrow>
                 if mode = SPACED_REPETITION then
                   (case apply_spaced_repetition_order now (length h) h1 of
                      (Some e, h2) \<Rightarrow> (Inl e, h2)
                    | (None, h2) \<Rightarrow> (Inr (length h), h2))
                 else if mode = CHALLENGE then
                   (case apply_difficulty_progression (length h) h1 of
                      (Some e, h2) \<Rightarrow> (Inl e, h2)
                    | (None, h2) \<Rightarrow> (Inr (length h), h2))
                 else (Inr (length h), h1))"
    unfolding personalize_cards_def Let_def a1 by (simp only: option.case)
  also have "\<dots> = (case e of
        Some x \<Rightarrow> (Inl x, h1)
      | None \<Rightarrow>
          if mode = SPACED_REPETITION then
            (case apply_spaced_repetition_order now (length h) h1 of
               (Some x, h2) \<Rightarrow> (Inl x, h2)
             | (None, h2) \<Rightarrow> (Inr (length h), h2))
          else if mode = CHALLENGE then
            (case apply_difficulty_progression (length h) h1 of
               (Some x, h2) \<Rightarrow> (Inl x, h2)
             | (None, h2) \<Rightarrow> (Inr (length h), h2))
          else (Inr (length h), h1))"
    unfolding a2 by (cases e) (simp_all only: prod.case option.case)
  finally show ?thesis .
qed

lemma personalize_cards_result:
  assumes "fst (personalize_cards now shuffle cards_ref mode profile h) = Inr p"
  shows "p = length h \<and>
     (\<exists>l. list_at (snd (personalize_cards now shuffle cards_ref mode profile h)) p = Some l \<and>
          (\<forall>a \<in> set l. length h < a))"
proof -
  let ?n = "length h"
  let ?h0 = "h @ [PyList []]"
  have "list_at ?h0 cards_ref \<noteq> None"
  proof
    assume "list_at ?h0 cards_ref = None"
    then have "personalize_cards now shuffle cards_ref mode profile h = (Inl TypeError, ?h0)"
      unfolding personalize_cards_def Let_def by simp
    with assms show False by simp
  qed
  then obtain l where Some: "list_at ?h0 cards_ref = Some l" by blast
  let ?r = "personalize_loop shuffle mode profile ?n l ?h0"
  have "list_at ?h0 ?n = Some []" by (simp add: list_at_def)
  from personalize_loop_frame [of ?n ?n ?h0 "[]" shuffle mode profile l, OF _ _ this]
  obtain l' where l': "list_at (snd ?r) ?n = Some l'" "\<forall>a \<in> set l'. ?n < a"
    by auto
  from l'(2) have notin: "?n \<notin> set l'" by auto
  obtain e h1 where r: "?r = (e, h1)" by (cases ?r)
  note pc = personalize_cards_unfold [OF Some r, of now]
  from l' r have l1: "list_at h1 ?n = Some l'" by simp
  from assms have e: "e = None" unfolding pc by (cases e) simp_all
  show ?thesis
  proof (cases "mode = SPACED_REPETITION")
    case True
    obtain e2 h2 where a: "apply_spaced_repetition_order now ?n h1 = (e2, h2)"
      by (cases "apply_spaced_repetition_order now ?n h1")
    have pc2: "personalize_cards now shuffle cards_ref mode profile h =
        (case e2 of Some x \<Rightarrow> (Inl x, h2) | None \<Rightarrow> (Inr ?n, h2))"
      unfolding pc e a using True by simp
    from assms have e2: "e2 = None" unfolding pc2 by (cases e2) simp_all
    from assms have p: "p = ?n" unfolding pc2 e2 by simp
    from apply_spaced_repetition_order_list [OF l1 notin, of now] a e2
    obtain l2 where "list_at h2 ?n = Some l2" "set l2 = set l'" by auto
    with l'(2) show ?thesis unfolding pc2 e2 p by simp
  next
    case False
    note ns = this
    show ?thesis
    proof (cases "mode = CHALLENGE")
      case True
      obtain e2 h2 where a: "apply_difficulty_progression ?n h1 = (e2, h2)"
        by (cases "apply_difficulty_progression ?n h1")
      from apply_difficulty_progression_list [OF l1] a
      obtain l2 where e2: "e2 = None" and l2: "list_at h2 ?n = Some l2" "set l2 = set l'" by auto
      have pc2: "personalize_cards now shuffle cards_ref mode profile h = (Inr ?n, h2)"
        unfolding pc e a e2 using True ns by simp
      from assms have p: "p = ?n" unfolding pc2 by simp
      from l2 l'(2) show ?thesis unfolding pc2 p by simp
    next
      case False
      have pc2: "personalize_cards now shuffle cards_ref mode profile h = (Inr ?n, h1)"
        unfolding pc e using False ns by simp
      from assms have p: "p = ?n" unfolding pc2 by simp
      from l1 l'(2) show ?thesis unfolding pc2 p by simp
    qed
  qed
qed

text \<open>
  Claim C9.  Whatever the store, the list and the mode, and whether the call returns
  or raises, \<open>create_personalized_session\<close> leaves every object that existed before
  the call as it was: the caller's list and every dictionary of the store, so every
  input card with all its keys.  When the call returns, the list of the session is a
  new object, and the cards it holds are new objects as well: the copies, which alone
  were transformed and reordered.
\<close>

theorem create_personalized_session_frame:
  "take (length h)
     (snd (snd (create_personalized_session now shuffle user_profiles h uid cards_ref mode_arg))) = h \<and>
   (\<forall>s. fst (create_personalized_session now shuffle user_profiles h uid cards_ref mode_arg) = Inr s
      \<longrightarrow> session_cards s = length h \<and>
        (\<exists>l. list_at
           (snd (snd (create_personalized_session now shuffle user_profiles h uid cards_ref mode_arg)))
           (session_cards s) = Some l \<and> (\<forall>a \<in> set l. length h < a)))"
proof -
  obtain profile user_profiles1 where g: "get_user_profile user_profiles uid = (profile, user_profiles1)"
    by (cases "get_user_profile user_profiles uid")
  let ?mode = "case mode_arg of Some m \<Rightarrow> m
     | None \<Rightarrow> (case preferred_modes profile of [] \<Rightarrow> BASIC_EDUCATIONAL | m # ms \<Rightarrow> m)"
  obtain res h1 where p: "personalize_cards now shuffle cards_ref ?mode profile h = (res, h1)"
    by (cases "personalize_cards now shuffle cards_ref ?mode profile h")
  from personalize_cards_frame [of h now shuffle cards_ref ?mode profile] p
  have tk: "take (length h) h1 = h" by simp
  show ?thesis
  proof (cases res)
    case (Inl e)
    with tk show ?thesis by (simp add: create_personalized_session_def g p Let_def)
  next
    case (Inr pl)
    with p have f: "fst (personalize_cards now shuffle cards_ref ?mode profile h) = Inr pl"
      by simp
    have both: "pl = length h \<and> (\<exists>l. list_at h1 pl = Some l \<and> (\<forall>a \<in> set l. length h < a))"
      using personalize_cards_result [OF f] unfolding p snd_conv .
    then have pl: "pl = length h" ..
    from both have ex: "\<exists>l. list_at h1 pl = Some l \<and> (\<forall>a \<in> set l. length h < a)" ..
    have c: "create_personalized_session now shuffle user_profiles h uid cards_ref mode_arg =
       (Inr \<lparr>session_id = (uid, now), session_user_id = uid, session_mode = ?mode,
              session_cards = pl, current_card_index = 0, start_time = now,
              session_responses = [], settings = mode_configurations ?mode\<rparr>,
        user_profiles1, h1)"
      by (simp add: create_personalized_session_def g p Inr Let_def)
    show ?thesis unfolding c using tk pl ex by auto
  qed
qed

text \<open>A challenge session over two cards: the three objects of the caller are as
  before, and the session holds the two copies, the easy one first.\<close>

theorem create_personalized_session_frame_witness:
  "take 3 (snd (snd (create_personalized_session 0 rev Map.empty
      [PyList [1, 2],
       Dict (empty_card\<lparr>c_front := Some ''Q1'', c_back := Some ''A1'', difficulty := Some ''hard''\<rparr>),
       Dict (empty_card\<lparr>c_front := Some ''Q2'', c_back := Some ''A2'', difficulty := Some ''easy''\<rparr>)]
      ''u'' 0 (Some CHALLENGE))))
   = [PyList [1, 2],
       Dict (empty_card\<lparr>c_front := Some ''Q1'', c_back := Some ''A1'', difficulty := Some ''hard''\<rparr>),
       Dict (empty_card\<lparr>c_front := Some ''Q2'', c_back := Some ''A2'', difficulty := Some ''easy''\<rparr>)] \<and>
   list_at (snd (snd (create_personalized_session 0 rev Map.empty
      [PyList [1, 2],
       Dict (empty_card\<lparr>c_front := Some ''Q1'', c_back := Some ''A1'', difficulty := Some ''hard''\<rparr>),
       Dict (empty_card\<lparr>c_front := Some ''Q2'', c_back := Some ''A2'', difficulty := Some ''easy''\<rparr>)]
      ''u'' 0 (Some CHALLENGE)))) 3 = Some [5, 4]"
proof -
  let ?h = "[PyList [1, 2],
       Dict (empty_card\<lparr>c_front := Some ''Q1'', c_back := Some ''A1'', difficulty := Some ''hard''\<rparr>),
       Dict (empty_card\<lparr>c_front := Some ''Q2'', c_back := Some ''A2'', difficulty := Some ''easy''\<rparr>)]"
  have len: "length ?h = 3" by simp
  have a: "take 3 (snd (snd (create_personalized_session 0 rev Map.empty ?h ''u'' 0 (Some CHALLENGE)))) = ?h"
    using create_personalized_session_frame [of ?h 0 rev Map.empty "''u''" 0 "Some CHALLENGE"]
    unfolding len by (rule conjunct1)
  have b: "list_at (snd (snd (create_personalized_session 0 rev Map.empty ?h ''u'' 0 (Some CHALLENGE)))) 3
     = Some [5, 4]"
    by (simp add: create_personalized_session_def get_user_profile_def personalize_cards_def
        list_at_def dict_at_def personalize_card_def convert_to_reverse_questioning_def
        apply_difficulty_progression_def key_at_def difficulty_order_def empty_card_def Let_def)
  from a b show ?thesis by (rule conjI)
qed

subsection \<open>The order of a spaced-repetition session\<close>

lemma insort_key_of_map:
  "insort_key f (g x) (map g ys) = map g (insort_key (f \<circ> g) x ys)"
  by (induction ys) simp_all

lemma sort_key_of_map: "sort_key f (map g xs) = map g (sort_key (f \<circ> g) xs)"
proof (induction xs)
  case Nil
  then show ?case by simp
next
  case (Cons x xs)
  have "sort_key f (map g (x # xs)) = insort_key f (g x) (map g (sort_key (f \<circ> g) xs))"
    by (simp only: list.map sort_key_simps Cons.IH)
  also have "\<dots> = map g (insort_key (f \<circ> g) x (sort_key (f \<circ> g) xs))"
    by (rule insort_key_of_map)
  finally show ?case by (simp only: sort_key_simps)
qed

lemma dict_at_of_map:
  assumes "map (dict_at h) l = map Some ds" and "a \<in> set l"
  shows "\<exists>c \<in> set ds. dict_at h a = Some c"
proof -
  from assms(2) have "dict_at h a \<in> set (map (dict_at h) l)" by simp
  then have "dict_at h a \<in> Some ` set ds" unfolding assms(1) by simp
  then show ?thesis by auto
qed

lemma presented_cards:
  assumes "list_at h a = Some l" and "map (dict_at h) l = map Some ds"
  shows "presented h a = ds"
proof -
  have "concat (map (\<lambda>r. case dict_at h r of None \<Rightarrow> [] | Some c \<Rightarrow> [c]) l) = ds"
    using assms(2) by (induction l arbitrary: ds) auto
  with assms(1) show ?thesis by (simp add: presented_def)
qed

lemma apply_spaced_repetition_order_presented:
  assumes l: "list_at h pl = Some l" and ds: "map (dict_at h) l = map Some ds"
    and nv: "\<forall>c \<in> set ds. naive_or_none (last_reviewed c)"
  shows "\<exists>h'. apply_spaced_repetition_order now pl h = (None, h') \<and>
     presented h' pl =
       sort_key (\<lambda>c. - review_age now c)
         (map (\<lambda>c. c\<lparr>priority := Some (review_age now c)\<rparr>) ds)"
proof -
  let ?U = "\<lambda>c. c\<lparr>priority := Some (review_age now c)\<rparr>"
  let ?f = "\<lambda>c. - review_age now c"
  have cards: "\<forall>a \<in> set l. \<exists>c. dict_at h a = Some c \<and> naive_or_none (last_reviewed c)"
    using dict_at_of_map [OF ds] nv by blast
  from apply_spaced_repetition_order_run [OF l cards, of now] obtain h' where
    run: "apply_spaced_repetition_order now pl h = (None, h')"
    and la: "list_at h' pl = Some (sort_key (\<lambda>a. - key_at (review_age now) h a) l)"
    and upd: "\<forall>a \<in> set l. \<forall>c. dict_at h a = Some c \<longrightarrow> dict_at h' a = Some (?U c)"
    by blast
  define D where "D = (\<lambda>a. the (dict_at h a))"
  have D: "\<forall>a \<in> set l. dict_at h a = Some (D a)"
    using cards by (auto simp: D_def)
  have "map (\<lambda>a. Some (D a)) l = map (dict_at h) l"
    using D by (simp only: map_eq_conv) simp
  then have "map Some (map D l) = map Some ds"
    by (simp only: ds map_map comp_def)
  then have mapD: "map D l = ds"
    by (simp only: inj_map_eq_map [OF inj_Some])
  have keys: "\<forall>a \<in> set l. - key_at (review_age now) h a = (?f \<circ> (?U \<circ> D)) a"
    using D by (simp add: key_at_def)
  let ?s = "sort_key (\<lambda>a. - key_at (review_age now) h a) l"
  have s: "?s = sort_key (?f \<circ> (?U \<circ> D)) l"
    by (rule sort_key_cong_set [OF keys])
  have "\<forall>a \<in> set ?s. dict_at h' a = Some ((?U \<circ> D) a)"
    using upd D by simp
  then have "map (dict_at h') ?s = map Some (map (?U \<circ> D) ?s)"
    by simp
  with la have "presented h' pl = map (?U \<circ> D) ?s"
    by (rule presented_cards)
  also have "\<dots> = map (?U \<circ> D) (sort_key (?f \<circ> (?U \<circ> D)) l)"
    by (simp only: s)
  also have "\<dots> = sort_key ?f (map (?U \<circ> D) l)"
    by (rule sort_key_of_map [symmetric])
  also have "map (?U \<circ> D) l = map ?U ds"
    unfolding mapD [symmetric] by simp
  finally show ?thesis using run by blast
qed

lemma personalize_loop_run:
  assumes "pl < length H" and "list_at H pl = Some acc"
    and "map (dict_at H) refs = map Some cs"
  shows "personalize_loop shuffle mode profile pl refs H =
     (None, (H @ map (\<lambda>c. Dict (personalize_card shuffle mode profile c)) cs)
              [pl := PyList (acc @ [length H ..< length H + length cs])])"
  using assms
proof (induction refs arbitrary: H acc cs)
  case Nil
  then have cs: "cs = []" by simp
  have "H ! pl = PyList acc"
    using Nil.prems(1,2) by (simp add: list_at_def split: obj.splits)
  then have "H[pl := PyList acc] = H" by (metis list_update_id)
  then show ?case by (simp add: cs)
next
  case (Cons r rest)
  from Cons.prems(3) obtain c cs' where cs: "cs = c # cs'" and c: "dict_at H r = Some c"
    and rest: "map (dict_at H) rest = map Some cs'"
    by (cases cs) auto
  let ?P = "personalize_card shuffle mode profile"
  let ?a = "length H"
  let ?h2 = "H @ [Dict (?P c)]"
  let ?h3 = "?h2[pl := PyList (acc @ [?a])]"
  have l2: "list_at ?h2 pl = Some acc"
    using Cons.prems(1,2) by (simp add: list_at_def nth_append)
  have step: "personalize_loop shuffle mode profile pl (r # rest) H =
      personalize_loop shuffle mode profile pl rest ?h3"
    by (simp add: c l2 Let_def)
  have l3: "list_at ?h3 pl = Some (acc @ [?a])"
    using Cons.prems(1) by (simp add: list_at_def)
  have same: "\<forall>x \<in> set rest. dict_at ?h3 x = dict_at H x"
  proof
    fix x assume "x \<in> set rest"
    with dict_at_of_map [OF rest] obtain cx where cx: "dict_at H x = Some cx" by blast
    then have "x < length H" by (rule dict_at_length)
    moreover have "x \<noteq> pl"
      using cx Cons.prems(1,2) by (auto simp: dict_at_def list_at_def split: if_splits obj.splits)
    ultimately show "dict_at ?h3 x = dict_at H x"
      by (simp add: dict_at_def nth_append)
  qed
  then have "map (dict_at ?h3) rest = map (dict_at H) rest"
    by (simp only: map_eq_conv)
  with rest have d3: "map (dict_at ?h3) rest = map Some cs'" by simp
  have pl3: "pl < length ?h3" using Cons.prems(1) by simp
  have ih: "personalize_loop shuffle mode profile pl rest ?h3 =
     (None, (?h3 @ map (\<lambda>c. Dict (?P c)) cs')
              [pl := PyList ((acc @ [?a]) @ [length ?h3 ..< length ?h3 + length cs'])])"
    by (rule Cons.IH [OF pl3 l3 d3])
  have heap: "(?h3 @ map (\<lambda>c. Dict (?P c)) cs')[pl := X] =
      (H @ map (\<lambda>c. Dict (?P c)) (c # cs'))[pl := X]" for X
    using Cons.prems(1) by (simp add: list_update_append1)
  have "[?a ..< ?a + length (c # cs')] = ?a # [Suc ?a ..< Suc ?a + length cs']"
    by (subst upt_rec) simp
  then have idx: "(acc @ [?a]) @ [length ?h3 ..< length ?h3 + length cs'] =
      acc @ [?a ..< ?a + length (c # cs')]"
    by (simp del: upt_Suc)
  show ?case unfolding step ih cs heap idx ..
qed

lemma personalize_card_last_reviewed:
  "last_reviewed (personalize_card shuffle SPACED_REPETITION profile c) = last_reviewed c"
  by (simp add: personalize_card_def Let_def)

lemma review_age_personalize_card:
  "review_age now (personalize_card shuffle SPACED_REPETITION profile c) = review_age now c"
  by (simp add: review_age_def personalize_card_last_reviewed)

lemma personalize_cards_spaced_repetition:
  assumes l: "list_at h cards_ref = Some l" and cs: "map (dict_at h) l = map Some cs"
    and nv: "\<forall>c \<in> set cs. naive_or_none (last_reviewed c)"
  shows "\<exists>h'. personalize_cards now shuffle cards_ref SPACED_REPETITION profile h =
       (Inr (length h), h') \<and>
     presented h' (length h) =
       sort_key (\<lambda>c. - review_age now c)
         (map (\<lambda>c. (personalize_card shuffle SPACED_REPETITION profile c)
                      \<lparr>priority := Some (review_age now c)\<rparr>) cs)"
proof -
  let ?n = "length h"
  let ?h0 = "h @ [PyList []]"
  let ?P = "personalize_card shuffle SPACED_REPETITION profile"
  let ?U = "\<lambda>c. c\<lparr>priority := Some (review_age now c)\<rparr>"
  have rlen: "cards_ref < length h"
    using l by (simp add: list_at_def split: if_splits)
  have l0: "list_at ?h0 cards_ref = Some l"
    using l rlen by (simp add: list_at_def nth_append)
  have "\<forall>a \<in> set l. dict_at ?h0 a = dict_at h a"
  proof
    fix a assume "a \<in> set l"
    with dict_at_of_map [OF cs] obtain c where "dict_at h a = Some c" by blast
    then have "a < length h" by (rule dict_at_length)
    then show "dict_at ?h0 a = dict_at h a" by (simp add: dict_at_def nth_append)
  qed
  then have "map (dict_at ?h0) l = map (dict_at h) l" by (simp only: map_eq_conv)
  with cs have d0: "map (dict_at ?h0) l = map Some cs" by simp
  have acc0: "list_at ?h0 ?n = Some []" by (simp add: list_at_def)
  let ?L = "[Suc ?n ..< Suc ?n + length cs]"
  let ?h1 = "(?h0 @ map (\<lambda>c. Dict (?P c)) cs)[?n := PyList ?L]"
  have "personalize_loop shuffle SPACED_REPETITION profile ?n l ?h0 =
     (None, (?h0 @ map (\<lambda>c. Dict (?P c)) cs)
              [?n := PyList ([] @ [length ?h0 ..< length ?h0 + length cs])])"
    by (rule personalize_loop_run [OF _ acc0 d0]) simp
  then have loop: "personalize_loop shuffle SPACED_REPETITION profile ?n l ?h0 = (None, ?h1)"
    by (simp del: upt_Suc)
  have l1: "list_at ?h1 ?n = Some ?L" by (simp add: list_at_def del: upt_Suc)
  have d1: "map (dict_at ?h1) ?L = map Some (map ?P cs)"
  proof (rule nth_equalityI)
    show "length (map (dict_at ?h1) ?L) = length (map Some (map ?P cs))"
      by (simp del: upt_Suc)
  next
    fix i assume "i < length (map (dict_at ?h1) ?L)"
    then have i: "i < length cs" by (simp del: upt_Suc)
    then show "map (dict_at ?h1) ?L ! i = map Some (map ?P cs) ! i"
      by (simp add: dict_at_def nth_append del: upt_Suc)
  qed
  have nv1: "\<forall>c \<in> set (map ?P cs). naive_or_none (last_reviewed c)"
    using nv by (simp add: personalize_card_last_reviewed)
  from apply_spaced_repetition_order_presented [OF l1 d1 nv1, of now] obtain h' where
    run: "apply_spaced_repetition_order now ?n ?h1 = (None, h')"
    and pr: "presented h' ?n = sort_key (\<lambda>c. - review_age now c) (map ?U (map ?P cs))"
    by blast
  have res: "personalize_cards now shuffle cards_ref SPACED_REPETITION profile h = (Inr ?n, h')"
    unfolding personalize_cards_unfold [OF l0 loop, of now]
    by (simp only: option.case simp_thms if_True run prod.case)
  have eq: "map ?U (map ?P cs) = map (\<lambda>c. (?P c)\<lparr>priority := Some (review_age now c)\<rparr>) cs"
    by (simp add: review_age_personalize_card)
  from res pr [unfolded eq] show ?thesis by blast
qed

text \<open>
  Claim C4, as the code has it.  A session is a spaced-repetition session when that
  mode is requested, or when no mode is requested and it is the first preferred mode of
  the user.  When the \<open>last_reviewed\<close> of every card of the caller's list is missing,
  \<^verbatim>\<open>None\<close> or a naive ISO timestamp, \<open>create_personalized_session\<close> returns such a
  session, and the cards it presents are the personalized copies of the caller's
  cards, each with its priority, the days since its last review or 999 for a card
  never reviewed, sorted by descending priority, cards of equal priority in the order
  of the caller's list.  A card never reviewed so precedes the cards reviewed less
  than 999 days ago, and no others.
\<close>

theorem spaced_repetition_session_order:
  assumes mode: "mode_arg = Some SPACED_REPETITION \<or>
      mode_arg = None \<and>
      (\<exists>ms. preferred_modes (fst (get_user_profile user_profiles uid)) = SPACED_REPETITION # ms)"
    and l: "list_at h cards_ref = Some l"
    and cs: "map (dict_at h) l = map Some cs"
    and nv: "\<forall>c \<in> set cs. naive_or_none (last_reviewed c)"
  shows "\<exists>s h'. create_personalized_session now shuffle user_profiles h uid cards_ref mode_arg =
       (Inr s, snd (get_user_profile user_profiles uid), h') \<and>
     session_mode s = SPACED_REPETITION \<and>
     session_cards s = length h \<and>
     presented h' (session_cards s) =
       sort_key (\<lambda>c. - review_age now c)
         (map (\<lambda>c. (personalize_card shuffle SPACED_REPETITION
                       (fst (get_user_profile user_profiles uid)) c)
                      \<lparr>priority := Some (review_age now c)\<rparr>) cs) \<and>
     sorted_wrt (\<lambda>a b. review_age now b \<le> review_age now a) (presented h' (session_cards s))"
proof -
  obtain profile user_profiles1 where
    g: "get_user_profile user_profiles uid = (profile, user_profiles1)"
    by (cases "get_user_profile user_profiles uid")
  have m: "(case mode_arg of Some m \<Rightarrow> m
     | None \<Rightarrow> (case preferred_modes profile of [] \<Rightarrow> BASIC_EDUCATIONAL | m # ms \<Rightarrow> m))
     = SPACED_REPETITION"
    using mode unfolding g by auto
  from personalize_cards_spaced_repetition [OF l cs nv, of now shuffle profile] obtain h' where
    pc: "personalize_cards now shuffle cards_ref SPACED_REPETITION profile h = (Inr (length h), h')"
    and pr: "presented h' (length h) =
       sort_key (\<lambda>c. - review_age now c)
         (map (\<lambda>c. (personalize_card shuffle SPACED_REPETITION profile c)
                      \<lparr>priority := Some (review_age now c)\<rparr>) cs)"
    by blast
  have c: "create_personalized_session now shuffle user_profiles h uid cards_ref mode_arg =
       (Inr \<lparr>session_id = (uid, now), session_user_id = uid, session_mode = SPACED_REPETITION,
              session_cards = length h, current_card_index = 0, start_time = now,
              session_responses = [], settings = mode_configurations SPACED_REPETITION\<rparr>,
        user_profiles1, h')"
    unfolding create_personalized_session_def g Let_def prod.case m pc by simp
  have srt: "sorted_wrt (\<lambda>a b. review_age now b \<le> review_age now a) (presented h' (length h))"
    unfolding pr by (rule sorted_wrt_descending)
  show ?thesis
    unfolding c g using pr srt by simp
qed

text \<open>
  A session over four cards: reviewed 10 days ago, never, 30 days ago and never (the
  key holds \<^verbatim>\<open>None\<close>).  The two new cards come first, in the order of the caller's
  list, then the card reviewed 30 days ago.
\<close>

theorem spaced_repetition_session_order_witness:
  "map c_front (presented (snd (snd (create_personalized_session (timedelta_days 1000) id Map.empty
      [PyList [1, 2, 3, 4],
       Dict (empty_card\<lparr>c_front := Some ''a'', last_reviewed := Val (Naive (timedelta_days 990))\<rparr>),
       Dict (empty_card\<lparr>c_front := Some ''b''\<rparr>),
       Dict (empty_card\<lparr>c_front := Some ''c'', last_reviewed := Val (Naive (timedelta_days 970))\<rparr>),
       Dict (empty_card\<lparr>c_front := Some ''d'', last_reviewed := Null\<rparr>)]
      ''u'' 0 (Some SPACED_REPETITION)))) 5)
   = [Some ''b'', Some ''d'', Some ''c'', Some ''a'']"
proof -
  let ?a = "empty_card\<lparr>c_front := Some ''a'', last_reviewed := Val (Naive (timedelta_days 990))\<rparr>"
  let ?b = "empty_card\<lparr>c_front := Some ''b''\<rparr>"
  let ?c = "empty_card\<lparr>c_front := Some ''c'', last_reviewed := Val (Naive (timedelta_days 970))\<rparr>"
  let ?d = "empty_card\<lparr>c_front := Some ''d'', last_reviewed := Null\<rparr>"
  let ?h = "[PyList [1, 2, 3, 4], Dict ?a, Dict ?b, Dict ?c, Dict ?d]"
  let ?now = "timedelta_days 1000"
  let ?p = "fst (get_user_profile Map.empty ''u'')"
  let ?Q = "\<lambda>c. (personalize_card id SPACED_REPETITION ?p c)\<lparr>priority := Some (review_age ?now c)\<rparr>"
  have len: "length ?h = 5" by simp
  have l: "list_at ?h 0 = Some [1, 2, 3, 4]" by (simp add: list_at_def)
  have cs: "map (dict_at ?h) [1, 2, 3, 4] = map Some [?a, ?b, ?c, ?d]"
    by (simp add: dict_at_def)
  have nv: "\<forall>c \<in> set [?a, ?b, ?c, ?d]. naive_or_none (last_reviewed c)"
    by (simp add: empty_card_def)
  have age: "review_age ?now ?a = 10" "review_age ?now ?b = 999" "review_age ?now ?c = 30"
      "review_age ?now ?d = 999"
    by (simp_all add: review_age_def empty_card_def days_between_def timedelta_days_def
        usec_per_day_def usec_per_hour_def)
  have srt: "sort_key (\<lambda>c. - review_age ?now c) (map ?Q [?a, ?b, ?c, ?d]) = [?Q ?b, ?Q ?d, ?Q ?c, ?Q ?a]"
    by (simp add: review_age_personalize_card age)
  have front: "c_front (?Q c) = c_front c" for c
    by (simp add: personalize_card_def Let_def)
  from spaced_repetition_session_order [of "Some SPACED_REPETITION" Map.empty "''u''" ?h 0
      "[1, 2, 3, 4]" "[?a, ?b, ?c, ?d]" ?now id, OF _ l cs nv]
  obtain s h' where
    r: "create_personalized_session ?now id Map.empty ?h ''u'' 0 (Some SPACED_REPETITION) =
       (Inr s, snd (get_user_profile Map.empty ''u''), h')"
    and sc: "session_cards s = length ?h"
    and pr: "presented h' (session_cards s) =
       sort_key (\<lambda>c. - review_age ?now c) (map ?Q [?a, ?b, ?c, ?d])"
    by blast
  have "presented h' 5 = [?Q ?b, ?Q ?d, ?Q ?c, ?Q ?a]"
    using pr unfolding sc len srt .
  then have "map c_front (presented h' 5) = [c_front ?b, c_front ?d, c_front ?c, c_front ?a]"
    by (simp only: list.map front)
  then show ?thesis
    unfolding r snd_conv by (simp add: empty_card_def)
qed

text \<open>
  A session over a card never reviewed, followed by a card reviewed 1000 days ago: the
  reviewed card has the priority 1000 and is presented before the new card, whose
  priority is 999.  A session over a card whose \<open>last_reviewed\<close> is a timestamp with a
  UTC offset raises \<^verbatim>\<open>TypeError\<close> and presents nothing.
\<close>

theorem spaced_repetition_session_counterexample:
  "map (\<lambda>c. (c_front c, priority c))
     (presented (snd (snd (create_personalized_session (timedelta_days 1000) id Map.empty
        [PyList [1, 2],
         Dict (empty_card\<lparr>c_front := Some ''new''\<rparr>),
         Dict (empty_card\<lparr>c_front := Some ''old'', last_reviewed := Val (Naive 0)\<rparr>)]
        ''u'' 0 (Some SPACED_REPETITION)))) 3)
   = [(Some ''old'', Some 1000), (Some ''new'', Some 999)]
   \<and> fst (create_personalized_session (timedelta_days 1000) id Map.empty
        [PyList [1], Dict (empty_card\<lparr>last_reviewed := Val (Aware 0)\<rparr>)]
        ''u'' 0 (Some SPACED_REPETITION)) = Inl TypeError"
  by (simp add: create_personalized_session_def get_user_profile_def personalize_cards_def
      list_at_def dict_at_def personalize_card_def apply_spaced_repetition_order_def
      spaced_priority_def days_between_def timedelta_days_def usec_per_day_def usec_per_hour_def
      key_at_def priority_key_def presented_def empty_card_def Let_def)

end
